theory Spec2Isabelle
  imports Complex_Main "HOL-Library.Word"
begin

section \<open>The system core of the emulator worker (src/js/worker/system.js)\<close>

text \<open>
  The worker's \<open>System\<close> object drives a CPU through run quanta, forwards interrupt lines
  to it, sleeps while the guest is idle and loads the boot image into memory. The CPU, the
  devices, the timer's recalibration, the ELF and bzip2 readers and the word swap of the
  memory container live in other modules; they enter the model as the fields of a record of
  operations over an abstract machine state \<open>'c\<close>.

  Numbers: cycle counts, instruction counts and millisecond time stamps are JavaScript
  numbers holding integers, modelled as \<open>int\<close>. The timer's correction factor is a
  fraction, modelled as \<open>real\<close>; the idle wait is computed from it in double precision,
  with the rounding, the infinities and the NaN of JavaScript's arithmetic.
\<close>

subsection \<open>Data\<close>

type_synonym u8 = "8 word"

text \<open>\<open>SYSTEM_RUN = 0x1\<close>, \<open>SYSTEM_STOP = 0x2\<close>, \<open>SYSTEM_HALT = 0x3\<close> (idle).\<close>

datatype sysstatus = SYSTEM_RUN | SYSTEM_STOP | SYSTEM_HALT

datatype jsnum = Num real | PosInfinity | NegInfinity | NaN

text \<open>What the system asks of its collaborators, in the order it asks.\<close>

datatype event =
    CpuRaiseInterrupt int int
  | CpuClearInterrupt int int
  | CpuProgressTime int
  | CpuStep int int
  | CpuReset
  | CpuAnalyzeImage
  | DevicesReset
  | HostClearTimeout "nat option"
  | HostSetTimeout nat jsnum
  | MsgSend string int
  | MsgTty string
  | MsgDebugIdleWarning jsnum
  | MsgDebugKernelLoaded nat
  | MsgDebugStarting

record timer =
  instructionsperloop :: int
  timercyclesperinstruction :: int
  correction :: real

text \<open>
  A pending host timeout: its handle, its delay, and the \<open>delta\<close> its closure captured
  in \<open>HandleHalt\<close>.
\<close>

type_synonym timeout = "nat \<times> jsnum \<times> int"

record 'c system =
  status :: sysstatus
  ips :: int
  idletime :: int
  idlemaxwait :: int
  idletimeouthandle :: "nat option"
  ticksperms :: int
  memorysize :: int
  timer :: timer
  cpu :: 'c
  uint8mem :: "u8 list"
  clock :: int
  timeouts :: "timeout list"
  next_handle :: nat
  trace :: "event list"

text \<open>
  The contracts of the modules that are not part of this file: the CPU
  (\<open>Step\<close> returns the unused part of its budget), the polled serial devices, the
  devices' reset and the timer's \<open>Update\<close>.
\<close>

record 'c contract =
  cpu_Step :: "int \<Rightarrow> int \<Rightarrow> 'c \<Rightarrow> int \<times> 'c"
  cpu_RaiseInterrupt :: "int \<Rightarrow> int \<Rightarrow> 'c \<Rightarrow> 'c"
  cpu_ClearInterrupt :: "int \<Rightarrow> int \<Rightarrow> 'c \<Rightarrow> 'c"
  cpu_ProgressTime :: "int \<Rightarrow> 'c \<Rightarrow> 'c"
  cpu_GetTimeToNextInterrupt :: "'c \<Rightarrow> int"
  cpu_GetTicks :: "'c \<Rightarrow> int"
  cpu_Reset :: "'c \<Rightarrow> 'c"
  cpu_AnalyzeImage :: "'c \<Rightarrow> 'c"
  cpu_littleendian :: "'c \<Rightarrow> bool"
  uartdevs_Step :: "'c \<Rightarrow> 'c"
  devices_Reset :: "'c \<Rightarrow> 'c"
  timer_Update :: "int \<Rightarrow> int \<Rightarrow> bool \<Rightarrow> timer \<Rightarrow> timer"

subsection \<open>JavaScript arithmetic of the idle wait\<close>

text \<open>
  A JavaScript number is an IEEE 754 double: every arithmetic result is the double
  nearest to the exact result, a tie going to the even significand. A finite double is
  modelled by the real number it denotes (the sign of a zero is not modelled).

  \<open>ilog2 n x\<close> is the binary exponent of a positive \<open>x\<close>, found in at most \<open>n\<close>
  doublings or halvings; the 1100 rounds that \<open>ulp_of\<close> allows cover every exponent of a
  double and leave larger or smaller arguments beyond the overflow threshold, respectively
  among the subnormal numbers.
\<close>

fun ilog2 :: "nat \<Rightarrow> real \<Rightarrow> int" where
  "ilog2 0 x = 0"
| "ilog2 (Suc n) x =
     (if x < 1 then ilog2 n (2 * x) - 1 else if 2 \<le> x then ilog2 n (x / 2) + 1 else 0)"

definition pow2 :: "int \<Rightarrow> real" where
  "pow2 e = (if 0 \<le> e then 2 ^ nat e else 1 / 2 ^ nat (- e))"

definition round_half_even :: "real \<Rightarrow> int" where
  "round_half_even x =
     (if x - of_int \<lfloor>x\<rfloor> < 1 / 2 then \<lfloor>x\<rfloor>
      else if 1 / 2 < x - of_int \<lfloor>x\<rfloor> then \<lfloor>x\<rfloor> + 1
      else if even \<lfloor>x\<rfloor> then \<lfloor>x\<rfloor> else \<lfloor>x\<rfloor> + 1)"

text \<open>
  The distance of neighbouring doubles at a positive \<open>a\<close>: a significand of 53 bits, and
  the least exponent -1022 for the subnormal numbers.
\<close>

definition ulp_of :: "real \<Rightarrow> real" where
  "ulp_of a = pow2 (max (ilog2 1100 a) (- 1022) - 52)"

definition nearest :: "real \<Rightarrow> real" where
  "nearest a = of_int (round_half_even (a / ulp_of a)) * ulp_of a"

text \<open>The double for an exact result \<open>x\<close>; what rounds to \<open>2 ^ 1024\<close> or beyond is infinite.\<close>

definition to_double :: "real \<Rightarrow> jsnum" where
  "to_double x =
     (if x = 0 then Num 0
      else if pow2 1024 \<le> nearest \<bar>x\<bar> then (if 0 < x then PosInfinity else NegInfinity)
      else Num (if 0 < x then nearest \<bar>x\<bar> else - nearest \<bar>x\<bar>))"

text \<open>\<open>x / y\<close>: a zero divisor gives an infinity, or NaN for \<open>0 / 0\<close>.\<close>

fun js_divide :: "jsnum \<Rightarrow> jsnum \<Rightarrow> jsnum" where
  "js_divide (Num a) (Num b) =
     (if b = 0 then (if a = 0 then NaN else if 0 < a then PosInfinity else NegInfinity)
      else to_double (a / b))"
| "js_divide (Num a) PosInfinity = Num 0"
| "js_divide (Num a) NegInfinity = Num 0"
| "js_divide PosInfinity (Num b) = (if b < 0 then NegInfinity else PosInfinity)"
| "js_divide NegInfinity (Num b) = (if b < 0 then PosInfinity else NegInfinity)"
| "js_divide PosInfinity PosInfinity = NaN"
| "js_divide PosInfinity NegInfinity = NaN"
| "js_divide NegInfinity PosInfinity = NaN"
| "js_divide NegInfinity NegInfinity = NaN"
| "js_divide NaN y = NaN"
| "js_divide (Num a) NaN = NaN"
| "js_divide PosInfinity NaN = NaN"
| "js_divide NegInfinity NaN = NaN"

text \<open>\<open>x + b\<close> for a finite \<open>b\<close>.\<close>

fun js_add :: "jsnum \<Rightarrow> real \<Rightarrow> jsnum" where
  "js_add (Num a) b = to_double (a + b)"
| "js_add x b = x"

text \<open>\<open>Math.floor\<close>: the floor of a double is a double.\<close>

fun js_floor :: "jsnum \<Rightarrow> jsnum" where
  "js_floor (Num a) = Num (of_int \<lfloor>a\<rfloor>)"
| "js_floor x = x"

text \<open>\<open>x <= b\<close> and \<open>x > b\<close>: every comparison with NaN is false.\<close>

fun js_le :: "jsnum \<Rightarrow> real \<Rightarrow> bool" where
  "js_le (Num a) b = (a \<le> b)"
| "js_le NegInfinity b = True"
| "js_le PosInfinity b = False"
| "js_le NaN b = False"

fun js_gt :: "jsnum \<Rightarrow> real \<Rightarrow> bool" where
  "js_gt (Num a) b = (a > b)"
| "js_gt PosInfinity b = True"
| "js_gt NegInfinity b = False"
| "js_gt NaN b = False"

text \<open>
  \<open>Math.floor(delta / this.ticksperms / this.timer.correction + 0.5)\<close>, each operand
  being the double that holds it and each quotient and the sum rounded.
\<close>

definition mswait_of :: "int \<Rightarrow> int \<Rightarrow> real \<Rightarrow> jsnum" where
  "mswait_of delta tpm corr =
     js_floor (js_add (js_divide (js_divide (to_double (of_int delta)) (to_double (of_int tpm)))
                          (to_double corr)) (1 / 2))"

subsection \<open>The host: messages, timeouts and the clock\<close>

definition log_event :: "event \<Rightarrow> 'c system \<Rightarrow> 'c system" where
  "log_event e s = s\<lparr>trace := trace s @ [e]\<rparr>"

definition message_Send :: "string \<Rightarrow> int \<Rightarrow> 'c system \<Rightarrow> 'c system" where
  "message_Send name v s = log_event (MsgSend name v) s"

text \<open>\<open>utils.GetMilliseconds()\<close> reads the host's clock.\<close>

definition GetMilliseconds :: "'c system \<Rightarrow> int" where
  "GetMilliseconds s = clock s"

text \<open>
  \<open>clearTimeout(handle)\<close> drops the pending timeout with that handle; an undefined
  handle or one that is not pending changes nothing.
\<close>

definition clearTimeout :: "nat option \<Rightarrow> 'c system \<Rightarrow> 'c system" where
  "clearTimeout h s =
     log_event (HostClearTimeout h)
       (case h of None \<Rightarrow> s
        | Some n \<Rightarrow> s\<lparr>timeouts := filter (\<lambda>t. fst t \<noteq> n) (timeouts s)\<rparr>)"

text \<open>\<open>setTimeout(callback, ms)\<close> queues the callback and returns a fresh handle.\<close>

definition setTimeout :: "int \<Rightarrow> jsnum \<Rightarrow> 'c system \<Rightarrow> nat \<times> 'c system" where
  "setTimeout delta ms s =
     (next_handle s,
      log_event (HostSetTimeout (next_handle s) ms)
        (s\<lparr>timeouts := timeouts s @ [(next_handle s, ms, delta)],
           next_handle := Suc (next_handle s)\<rparr>))"

subsection \<open>Calls into the CPU contract\<close>

definition call_RaiseInterrupt :: "'c contract \<Rightarrow> int \<Rightarrow> int \<Rightarrow> 'c system \<Rightarrow> 'c system" where
  "call_RaiseInterrupt K line cpuid s =
     log_event (CpuRaiseInterrupt line cpuid) (s\<lparr>cpu := cpu_RaiseInterrupt K line cpuid (cpu s)\<rparr>)"

definition call_ClearInterrupt :: "'c contract \<Rightarrow> int \<Rightarrow> int \<Rightarrow> 'c system \<Rightarrow> 'c system" where
  "call_ClearInterrupt K line cpuid s =
     log_event (CpuClearInterrupt line cpuid) (s\<lparr>cpu := cpu_ClearInterrupt K line cpuid (cpu s)\<rparr>)"

definition call_ProgressTime :: "'c contract \<Rightarrow> int \<Rightarrow> 'c system \<Rightarrow> 'c system" where
  "call_ProgressTime K delta s =
     log_event (CpuProgressTime delta) (s\<lparr>cpu := cpu_ProgressTime K delta (cpu s)\<rparr>)"

definition call_Step :: "'c contract \<Rightarrow> int \<Rightarrow> int \<Rightarrow> 'c system \<Rightarrow> int \<times> 'c system" where
  "call_Step K budget hint s =
     (fst (cpu_Step K budget hint (cpu s)),
      log_event (CpuStep budget hint) (s\<lparr>cpu := snd (cpu_Step K budget hint (cpu s))\<rparr>))"

subsection \<open>The scheduler: \<open>HandleHalt\<close>, \<open>MainLoop\<close> and the deferred wake\<close>

text \<open>
  \<open>HandleHalt\<close>: the guest is idle. The sentinel \<open>-1\<close> of the CPU's query and a wait of at
  most one millisecond return at once (the second after \<open>idlemaxwait\<close> was stored);
  otherwise the system halts and a timeout is set whose closure keeps \<open>delta\<close>.
\<close>

definition HandleHalt :: "'c contract \<Rightarrow> 'c system \<Rightarrow> 'c system" where
  "HandleHalt K s =
     (let delta = cpu_GetTimeToNextInterrupt K (cpu s) in
      if delta = - 1 then s
      else
        let s1 = s\<lparr>idlemaxwait := delta\<rparr>;
            mswait = mswait_of delta (ticksperms s1) (correction (timer s1))
        in if js_le mswait 1 then s1
           else
             let s2 = (if js_gt mswait 1000 then log_event (MsgDebugIdleWarning mswait) s1 else s1);
                 s3 = s2\<lparr>idletime := GetMilliseconds s2\<rparr>;
                 s4 = s3\<lparr>status := SYSTEM_HALT\<rparr>;
                 (h, s5) = setTimeout delta mswait s4
             in s5\<lparr>idletimeouthandle := Some h\<rparr>)"

text \<open>
  \<open>MainLoop\<close>: one run quantum. \<open>stepsleft\<close> is what the CPU left of its budget; a
  non-zero rest means the CPU went idle.
\<close>

definition MainLoop :: "'c contract \<Rightarrow> 'c system \<Rightarrow> 'c system" where
  "MainLoop K s =
     (if status s \<noteq> SYSTEM_RUN then s
      else
        let s1 = message_Send ''execute'' 0 s;
            (stepsleft, s2) =
               call_Step K (instructionsperloop (timer s1)) (timercyclesperinstruction (timer s1)) s1;
            totalsteps = instructionsperloop (timer s2) - stepsleft;
            totalsteps = totalsteps + 1;
            s3 = s2\<lparr>ips := ips s2 + totalsteps\<rparr>;
            s4 = s3\<lparr>cpu := uartdevs_Step K (cpu s3)\<rparr>;
            gotoidle = (stepsleft \<noteq> 0);
            s5 = s4\<lparr>timer := timer_Update K totalsteps (cpu_GetTicks K (cpu s4)) gotoidle (timer s4)\<rparr>
        in if gotoidle then HandleHalt K s5 else s5)"

text \<open>
  The closure that \<open>HandleHalt\<close> hands to \<open>setTimeout\<close>, run by the host when the
  timeout with handle \<open>h\<close> is due: the timeout leaves the queue and, if the system is still
  halted, the CPU's clock advances by the captured \<open>delta\<close> and a quantum runs.
\<close>

definition wake_callback :: "'c contract \<Rightarrow> int \<Rightarrow> 'c system \<Rightarrow> 'c system" where
  "wake_callback K delta s =
     (if status s = SYSTEM_HALT
      then MainLoop K (call_ProgressTime K delta (s\<lparr>status := SYSTEM_RUN\<rparr>))
      else s)"

definition fire_timeout :: "'c contract \<Rightarrow> nat \<Rightarrow> 'c system \<Rightarrow> 'c system option" where
  "fire_timeout K h s =
     (case find (\<lambda>t. fst t = h) (timeouts s) of
        None \<Rightarrow> None
      | Some t \<Rightarrow>
          Some (wake_callback K (snd (snd t))
                  (s\<lparr>timeouts := filter (\<lambda>t. fst t \<noteq> h) (timeouts s)\<rparr>)))"

subsection \<open>The interrupt lines\<close>

definition RaiseInterrupt :: "'c contract \<Rightarrow> int \<Rightarrow> 'c system \<Rightarrow> 'c system" where
  "RaiseInterrupt K line s =
     (let s1 = call_RaiseInterrupt K line (- 1) s in
      if status s1 = SYSTEM_HALT
      then
        let s2 = s1\<lparr>status := SYSTEM_RUN\<rparr>;
            s3 = clearTimeout (idletimeouthandle s2) s2;
            delta = (GetMilliseconds s3 - idletime s3) * ticksperms s3;
            delta = (if delta > idlemaxwait s3 then idlemaxwait s3 else delta);
            s4 = call_ProgressTime K delta s3
        in MainLoop K s4
      else s1)"

definition ClearInterrupt :: "'c contract \<Rightarrow> int \<Rightarrow> 'c system \<Rightarrow> 'c system" where
  "ClearInterrupt K line s = call_ClearInterrupt K line (- 1) s"

definition RaiseSoftInterrupt :: "'c contract \<Rightarrow> int \<Rightarrow> int \<Rightarrow> 'c system \<Rightarrow> 'c system" where
  "RaiseSoftInterrupt K line cpuid s = call_RaiseInterrupt K line cpuid s"

definition ClearSoftInterrupt :: "'c contract \<Rightarrow> int \<Rightarrow> int \<Rightarrow> 'c system \<Rightarrow> 'c system" where
  "ClearSoftInterrupt K line cpuid s = call_ClearInterrupt K line cpuid s"

subsection \<open>Telemetry and reset\<close>

text \<open>The handler registered for "GetIPS" sends the counter and zeroes it.\<close>

definition GetIPS :: "'c system \<Rightarrow> 'c system" where
  "GetIPS s = (message_Send ''GetIPS'' (ips s) s)\<lparr>ips := 0\<rparr>"

definition Reset :: "'c contract \<Rightarrow> 'c system \<Rightarrow> 'c system" where
  "Reset K s =
     (let s1 = s\<lparr>status := SYSTEM_STOP\<rparr>;
          s2 = log_event DevicesReset (s1\<lparr>cpu := devices_Reset K (cpu s1)\<rparr>)
      in s2\<lparr>ips := 0\<rparr>)"

subsection \<open>\<open>Init\<close>: the bookkeeping fields\<close>

text \<open>
  Of \<open>Init\<close> the model keeps the assignments to the system's own fields. The objects it
  constructs from other modules (the CPU with its devices, the timer, the memory's byte
  view) are arguments. The configured size is in MB; the field \<open>memorysize\<close> is
  decremented after the heap is allocated, "the lower 1 MB are used for the cpu cores".
\<close>

record config =
  cfg_memorysize :: int
  cfg_ncores :: int

definition Init :: "config \<Rightarrow> 'c \<Rightarrow> timer \<Rightarrow> u8 list \<Rightarrow> 'c system \<Rightarrow> 'c system" where
  "Init system c0 t0 ram0 s =
     (let s1 = s\<lparr>status := SYSTEM_STOP\<rparr>;
          s2 = s1\<lparr>memorysize := cfg_memorysize system\<rparr>;
          s3 = s2\<lparr>memorysize := memorysize s2 - 1\<rparr>;
          s4 = s3\<lparr>uint8mem := ram0, cpu := c0\<rparr>;
          s5 = s4\<lparr>ips := 0, idletime := 0, idlemaxwait := 0\<rparr>;
          s6 = s5\<lparr>ticksperms := 20000\<rparr>
      in s6\<lparr>timer := t0\<rparr>)"

subsection \<open>The byte view of memory\<close>

text \<open>
  \<open>this.ram.uint8mem\<close> is a \<open>Uint8Array\<close>: a read past its end gives \<open>undefined\<close>,
  a write past its end is dropped, and a stored number is reduced modulo 256.
\<close>

definition u8_get :: "u8 list \<Rightarrow> nat \<Rightarrow> u8 option" where
  "u8_get m i = (if i < length m then Some (m ! i) else None)"

definition u8_set :: "u8 list \<Rightarrow> nat \<Rightarrow> u8 \<Rightarrow> u8 list" where
  "u8_set m i v = (if i < length m then m[i := v] else m)"

text \<open>
  The array \<open>m\<close> after \<open>bytes\<close> were stored at the addresses 0, 1, 2, ... in turn: the
  bytes that fit replace the start of \<open>m\<close>, the others are dropped.
\<close>

definition place_at_0 :: "u8 list \<Rightarrow> u8 list \<Rightarrow> u8 list" where
  "place_at_0 bytes m = take (length m) bytes @ drop (length bytes) m"

definition to_uint8 :: "int \<Rightarrow> u8" where
  "to_uint8 x = word_of_int x"

text \<open>\<open>x >> n\<close>: the operand is taken as a signed 32-bit integer, the shift keeps the sign.\<close>

definition js_sar :: "int \<Rightarrow> nat \<Rightarrow> int" where
  "js_sar x n = sint (signed_drop_bit (n mod 32) (word_of_int x :: 32 word))"

subsection \<open>\<open>PatchKernel\<close>\<close>

text \<open>The chain of \<open>if (m[i+k] === ...)\<close>: "memory\0" at \<open>i\<close>, 01 F0 00 00 at \<open>i + 24\<close>.\<close>

definition dts_found :: "u8 list \<Rightarrow> nat \<Rightarrow> bool" where
  "dts_found m i \<longleftrightarrow>
     u8_get m (i + 0) = Some 0x6d \<and>
     u8_get m (i + 1) = Some 0x65 \<and>
     u8_get m (i + 2) = Some 0x6d \<and>
     u8_get m (i + 3) = Some 0x6f \<and>
     u8_get m (i + 4) = Some 0x72 \<and>
     u8_get m (i + 5) = Some 0x79 \<and>
     u8_get m (i + 6) = Some 0x00 \<and>
     u8_get m (i + 24) = Some 0x01 \<and>
     u8_get m (i + 25) = Some 0xF0 \<and>
     u8_get m (i + 26) = Some 0x00 \<and>
     u8_get m (i + 27) = Some 0x00"

definition dts_write :: "int \<Rightarrow> u8 list \<Rightarrow> nat \<Rightarrow> u8 list" where
  "dts_write msize m i =
     (let m1 = u8_set m (i + 24) (to_uint8 (js_sar (msize * 0x100000) 24));
          m2 = u8_set m1 (i + 25) (to_uint8 (js_sar (msize * 0x100000) 16));
          m3 = u8_set m2 (i + 26) 0x00
      in u8_set m3 (i + 27) 0x00)"

function PatchKernel_loop :: "int \<Rightarrow> nat \<Rightarrow> nat \<Rightarrow> u8 list \<Rightarrow> u8 list" where
  "PatchKernel_loop msize len i m =
     (if i < len
      then PatchKernel_loop msize len (Suc i) (if dts_found m i then dts_write msize m i else m)
      else m)"
  by pat_completeness auto
termination
  by (relation "measure (\<lambda>(msize, len, i, m). len - i)") auto

declare PatchKernel_loop.simps [simp del]

definition PatchKernel :: "nat \<Rightarrow> 'c system \<Rightarrow> 'c system" where
  "PatchKernel len s = s\<lparr>uint8mem := PatchKernel_loop (memorysize s) len 0 (uint8mem s)\<rparr>"

subsection \<open>\<open>OnKernelLoaded\<close>\<close>

text \<open>
  The readers of the two image formats and the memory container's word swap are other
  modules. \<open>elf_Extract\<close> is called once with the RAM object and once with its byte view
  as destination; the model keeps which. \<open>bzip2_simple\<close> gives the bytes that the
  decompressor hands to its callback, in order (a decompressor that aborts is outside
  the model).
\<close>

datatype extract_dest = DestRam | DestUint8mem

record loader =
  elf_IsELF :: "u8 list \<Rightarrow> bool"
  elf_Extract :: "u8 list \<Rightarrow> extract_dest \<Rightarrow> u8 list \<Rightarrow> u8 list"
  bzip2_IsBZIP2 :: "u8 list \<Rightarrow> bool"
  bzip2_simple :: "u8 list \<Rightarrow> u8 list"
  ram_Little2Big :: "nat \<Rightarrow> u8 list \<Rightarrow> u8 list"

text \<open>The callback \<open>function(x){this.ram.uint8mem[length++] = x;}\<close>, run on each byte.\<close>

definition bzip2_callback :: "u8 \<Rightarrow> u8 list \<times> nat \<Rightarrow> u8 list \<times> nat" where
  "bzip2_callback x ml = (u8_set (fst ml) (snd ml) x, Suc (snd ml))"

text \<open>\<open>temp[i] = this.ram.uint8mem[i]\<close>: an \<open>undefined\<close> is stored as 0.\<close>

function copy_to_temp :: "u8 list \<Rightarrow> nat \<Rightarrow> nat \<Rightarrow> u8 list \<Rightarrow> u8 list" where
  "copy_to_temp m len i temp =
     (if i < len
      then copy_to_temp m len (Suc i)
             (u8_set temp i (case u8_get m i of Some v \<Rightarrow> v | None \<Rightarrow> 0))
      else temp)"
  by pat_completeness auto
termination
  by (relation "measure (\<lambda>(m, len, i, temp). len - i)") auto

declare copy_to_temp.simps [simp del]

text \<open>\<open>for(var i=0; i<length; i++) this.ram.uint8mem[i] = buffer8[i];\<close>\<close>

function copy_raw :: "u8 list \<Rightarrow> nat \<Rightarrow> nat \<Rightarrow> u8 list \<Rightarrow> u8 list" where
  "copy_raw buffer8 len i m =
     (if i < len
      then copy_raw buffer8 len (Suc i)
             (u8_set m i (case u8_get buffer8 i of Some v \<Rightarrow> v | None \<Rightarrow> 0))
      else m)"
  by pat_completeness auto
termination
  by (relation "measure (\<lambda>(buffer8, len, i, m). len - i)") auto

declare copy_raw.simps [simp del]

datatype format = ExecutableFormat | CompressedFormat | RawFlatBinary

text \<open>The order of the two tests of \<open>OnKernelLoaded\<close>.\<close>

definition sniff :: "loader \<Rightarrow> u8 list \<Rightarrow> format" where
  "sniff L buffer8 =
     (if elf_IsELF L buffer8 then ExecutableFormat
      else if bzip2_IsBZIP2 L buffer8 then CompressedFormat
      else RawFlatBinary)"

text \<open>The first part of \<open>OnKernelLoaded\<close>: memory and \<open>length\<close> after the three branches.\<close>

definition materialize :: "loader \<Rightarrow> u8 list \<Rightarrow> u8 list \<Rightarrow> u8 list \<times> nat" where
  "materialize L buffer8 m =
     (let len = length buffer8 in
      if elf_IsELF L buffer8 then (elf_Extract L buffer8 DestRam m, len)
      else if bzip2_IsBZIP2 L buffer8 then
        let (m1, len) = fold bzip2_callback (bzip2_simple L buffer8) (m, 0) in
        if elf_IsELF L m1
        then
          let temp = copy_to_temp m1 len 0 (replicate len 0)
          in (elf_Extract L temp DestUint8mem m1, len)
        else (m1, len)
      else (copy_raw buffer8 len 0 m, len))"

text \<open>\<open>if (this.cpu.littleendian == false) { PatchKernel; Little2Big }\<close>\<close>

definition normalize :: "'c contract \<Rightarrow> loader \<Rightarrow> nat \<Rightarrow> 'c system \<Rightarrow> 'c system" where
  "normalize K L len s =
     (if cpu_littleendian K (cpu s) = False
      then
        let s1 = PatchKernel len s
        in s1\<lparr>uint8mem := ram_Little2Big L len (uint8mem s1)\<rparr>
      else s)"

definition SendStringToTerminal :: "string \<Rightarrow> 'c system \<Rightarrow> 'c system" where
  "SendStringToTerminal str s = log_event (MsgTty str) s"

definition OnKernelLoaded :: "'c contract \<Rightarrow> loader \<Rightarrow> u8 list \<Rightarrow> 'c system \<Rightarrow> 'c system" where
  "OnKernelLoaded K L buffer s =
     (let s0 = SendStringToTerminal (''Decompressing kernel...'' @ [CHR 0x0D, CHR 0x0A]) s;
          (m, len) = materialize L buffer (uint8mem s0);
          s1 = s0\<lparr>uint8mem := m\<rparr>;
          s2 = normalize K L len s1;
          s3 = log_event (MsgDebugKernelLoaded len) s2;
          s4 = SendStringToTerminal (''Booting'' @ [CHR 0x0D, CHR 0x0A]) s3;
          s5 = SendStringToTerminal
                 ''================================================================================'' s4;
          s6 = log_event CpuReset (s5\<lparr>cpu := cpu_Reset K (cpu s5)\<rparr>);
          s7 = log_event CpuAnalyzeImage (s6\<lparr>cpu := cpu_AnalyzeImage K (cpu s6)\<rparr>);
          s8 = log_event MsgDebugStarting s7;
          s9 = s8\<lparr>status := SYSTEM_RUN\<rparr>
      in message_Send ''execute'' 0 s9)"

text \<open>
  For the statements about \<open>OnKernelLoaded\<close>: memory \<open>M\<close> with \<open>len\<close> bytes loaded, as
  a little-endian CPU leaves it and as any other CPU gets it, patched and then swapped.
\<close>

definition after_normalize :: "'c contract \<Rightarrow> loader \<Rightarrow> 'c system \<Rightarrow> nat \<Rightarrow> u8 list \<Rightarrow> u8 list" where
  "after_normalize K L s len M =
     (if cpu_littleendian K (cpu s) then M
      else ram_Little2Big L len (PatchKernel_loop (memorysize s) len 0 M))"

text \<open>What \<open>OnKernelLoaded\<close> sends and calls when it has loaded \<open>len\<close> bytes.\<close>

definition boot_trace :: "nat \<Rightarrow> event list" where
  "boot_trace len =
     [MsgTty (''Decompressing kernel...'' @ [CHR 0x0D, CHR 0x0A]),
      MsgDebugKernelLoaded len,
      MsgTty (''Booting'' @ [CHR 0x0D, CHR 0x0A]),
      MsgTty ''================================================================================'',
      CpuReset, CpuAnalyzeImage, MsgDebugStarting, MsgSend ''execute'' 0]"

subsection \<open>What reaches the system from outside\<close>

text \<open>
  The commands registered in the constructor (\<open>execute\<close>, \<open>Reset\<close>, \<open>GetIPS\<close>,
  \<open>Init\<close>, and the image delivered to \<open>OnKernelLoaded\<close>), the interrupt entry points that
  the devices call, a pending timeout becoming due, and the passing of time.
\<close>

datatype 'c command =
    Execute
  | DoReset
  | DoGetIPS
  | DoInit config 'c timer "u8 list"
  | KernelLoaded "u8 list"
  | Raise int
  | Clear int
  | RaiseSoft int int
  | ClearSoft int int
  | TimeoutDue nat
  | ClockAdvance nat

fun dispatch :: "'c contract \<Rightarrow> loader \<Rightarrow> 'c system \<Rightarrow> 'c command \<Rightarrow> 'c system" where
  "dispatch K L s Execute = MainLoop K s"
| "dispatch K L s DoReset = Reset K s"
| "dispatch K L s DoGetIPS = GetIPS s"
| "dispatch K L s (DoInit system c0 t0 ram0) = Init system c0 t0 ram0 s"
| "dispatch K L s (KernelLoaded buffer) = OnKernelLoaded K L buffer s"
| "dispatch K L s (Raise line) = RaiseInterrupt K line s"
| "dispatch K L s (Clear line) = ClearInterrupt K line s"
| "dispatch K L s (RaiseSoft line cpuid) = RaiseSoftInterrupt K line cpuid s"
| "dispatch K L s (ClearSoft line cpuid) = ClearSoftInterrupt K line cpuid s"
| "dispatch K L s (TimeoutDue h) = (case fire_timeout K h s of None \<Rightarrow> s | Some s' \<Rightarrow> s')"
| "dispatch K L s (ClockAdvance d) = s\<lparr>clock := clock s + int d\<rparr>"

definition run :: "'c contract \<Rightarrow> loader \<Rightarrow> 'c system \<Rightarrow> 'c command list \<Rightarrow> 'c system" where
  "run K L s cs = foldl (dispatch K L) s cs"

subsection \<open>A scripted CPU and a start state, for concrete runs\<close>

text \<open>
  The scripted CPU leaves \<open>left\<close> of every budget (never more than the budget), reports
  \<open>next_irq\<close> cycles to its next timer interrupt, which a progress of time brings
  nearer, and records the lines raised on it.
\<close>

record scripted =
  ticks :: int
  left :: int
  next_irq :: int
  lines :: "(int \<times> int) list"

definition scripted_cpu :: "scripted contract" where
  "scripted_cpu =
     \<lparr>cpu_Step = (\<lambda>budget hint c. (min (left c) budget, c\<lparr>ticks := ticks c + (budget - min (left c) budget)\<rparr>)),
      cpu_RaiseInterrupt = (\<lambda>line cpuid c. c\<lparr>lines := (line, cpuid) # lines c\<rparr>),
      cpu_ClearInterrupt = (\<lambda>line cpuid c. c\<lparr>lines := removeAll (line, cpuid) (lines c)\<rparr>),
      cpu_ProgressTime = (\<lambda>delta c. c\<lparr>ticks := ticks c + delta, next_irq := next_irq c - delta\<rparr>),
      cpu_GetTimeToNextInterrupt = next_irq,
      cpu_GetTicks = ticks,
      cpu_Reset = (\<lambda>c. c\<lparr>ticks := 0, lines := []\<rparr>),
      cpu_AnalyzeImage = (\<lambda>c. c),
      cpu_littleendian = (\<lambda>c. False),
      uartdevs_Step = (\<lambda>c. c),
      devices_Reset = (\<lambda>c. c\<lparr>ticks := 0, lines := []\<rparr>),
      timer_Update = (\<lambda>totalsteps ticks gotoidle t. t)\<rparr>"

text \<open>The same CPU as a little-endian variant.\<close>

definition scripted_cpu_le :: "scripted contract" where
  "scripted_cpu_le = scripted_cpu\<lparr>cpu_littleendian := (\<lambda>c. True)\<rparr>"

text \<open>Running, 31 MB, a budget of 10 instructions, the CPU consuming all of it.\<close>

definition sys0 :: "scripted system" where
  "sys0 =
     \<lparr>status = SYSTEM_RUN, ips = 0, idletime = 0, idlemaxwait = 0, idletimeouthandle = None,
      ticksperms = 20000, memorysize = 31,
      timer = \<lparr>instructionsperloop = 10, timercyclesperinstruction = 1, correction = 1\<rparr>,
      cpu = \<lparr>ticks = 0, left = 0, next_irq = 100000, lines = []\<rparr>,
      uint8mem = [], clock = 0, timeouts = [], next_handle = 0, trace = []\<rparr>"

text \<open>
  The same system halted at time 0 for 5 ms (100000 cycles), with the CPU going idle
  again after 6 instructions of whatever quantum it is given next.
\<close>

definition sys_idle :: "scripted system" where
  "sys_idle =
     \<lparr>status = SYSTEM_HALT, ips = 7, idletime = 0, idlemaxwait = 100000,
      idletimeouthandle = Some 0, ticksperms = 20000, memorysize = 31,
      timer = \<lparr>instructionsperloop = 10, timercyclesperinstruction = 1, correction = 1\<rparr>,
      cpu = \<lparr>ticks = 6, left = 4, next_irq = 100000, lines = []\<rparr>,
      uint8mem = [], clock = 2, timeouts = [(0, Num 5, 100000)], next_handle = 1, trace = []\<rparr>"

subsection \<open>Names for the quantities of a quantum\<close>

text \<open>
  The budget handed to \<open>cpu.Step\<close> in \<open>MainLoop\<close>, and \<open>stepsleft\<close>, what the CPU
  returns of it.
\<close>

definition quantumBudget :: "'c system \<Rightarrow> int" where
  "quantumBudget s = instructionsperloop (timer s)"

definition unusedBudget :: "'c contract \<Rightarrow> 'c system \<Rightarrow> int" where
  "unusedBudget K s =
     fst (cpu_Step K (instructionsperloop (timer s)) (timercyclesperinstruction (timer s)) (cpu s))"

text \<open>The CPU contract: \<open>Step\<close> returns the unused part of its budget, so no more than it.\<close>

definition step_within_budget :: "'c contract \<Rightarrow> bool" where
  "step_within_budget K \<longleftrightarrow> (\<forall>budget hint c. fst (cpu_Step K budget hint c) \<le> budget)"

text \<open>
  The specification's reading of the count of a quantum, for comparison with
  \<open>MainLoop\<close>: "consumed = quantumBudget - unused, with a floor of 1".
\<close>

definition spec_consumed :: "int \<Rightarrow> int \<Rightarrow> int" where
  "spec_consumed budget unused = max 1 (budget - unused)"

text \<open>The commands that assign zero to the counter.\<close>

fun zeroes_ips :: "'c command \<Rightarrow> bool" where
  "zeroes_ips DoGetIPS = True"
| "zeroes_ips DoReset = True"
| "zeroes_ips (DoInit system c0 t0 ram0) = True"
| "zeroes_ips c = False"

text \<open>
  The timeout with handle \<open>h\<close> has been handed out by the host and is not pending: it
  was cancelled or has run.
\<close>

definition cancelled :: "nat \<Rightarrow> 'c system \<Rightarrow> bool" where
  "cancelled h s \<longleftrightarrow> h < next_handle s \<and> (\<forall>t\<in>set (timeouts s). fst t \<noteq> h)"

subsection \<open>Stand-ins for the image readers, for concrete runs\<close>

text \<open>
  Modelled from the spec: \<open>ram.Little2Big(length)\<close> of the memory container, which is not
  part of this file, "byte-swap every machine word in the first length bytes of memory in
  place"; the machine word has four bytes.
\<close>

fun swap_words :: "nat \<Rightarrow> u8 list \<Rightarrow> u8 list" where
  "swap_words (Suc n) (a # b # c # d # m) = d # c # b # a # swap_words n m"
| "swap_words n m = m"

text \<open>
  A loader for concrete runs. It knows the two magic numbers (7F 45 4C 46 and "BZh");
  its "executable" is a four-byte magic followed by one segment for address 0, and its
  "compressed" image is a four-byte header followed by the stored bytes.
\<close>

definition stub_loader :: loader where
  "stub_loader =
     \<lparr>elf_IsELF = (\<lambda>b. take 4 b = [0x7F, 0x45, 0x4C, 0x46]),
      elf_Extract = (\<lambda>src dest m. place_at_0 (drop 4 src) m),
      bzip2_IsBZIP2 = (\<lambda>b. take 3 b = [0x42, 0x5A, 0x68]),
      bzip2_simple = (\<lambda>b. drop 4 b),
      ram_Little2Big = (\<lambda>len m. swap_words (len div 4) m)\<rparr>"

subsection \<open>Names for what \<open>PatchKernel\<close> writes\<close>

text \<open>The two bytes that carry the size, as \<open>dts_write\<close> stores them.\<close>

definition size_hi :: "int \<Rightarrow> u8" where
  "size_hi msize = to_uint8 (js_sar (msize * 0x100000) 24)"

definition size_lo :: "int \<Rightarrow> u8" where
  "size_lo msize = to_uint8 (js_sar (msize * 0x100000) 16)"

text \<open>The size field at \<open>i + 24\<close> holds the patched value.\<close>

definition patched :: "int \<Rightarrow> u8 list \<Rightarrow> nat \<Rightarrow> bool" where
  "patched msize m i \<longleftrightarrow>
     u8_get m (i + 24) = Some (size_hi msize) \<and>
     u8_get m (i + 25) = Some (size_lo msize) \<and>
     u8_get m (i + 26) = Some 0x00 \<and>
     u8_get m (i + 27) = Some 0x00"

text \<open>The seven bytes "memory\0" at \<open>p\<close>, and the placeholder 01 F0 00 00 at \<open>p + 24\<close>.\<close>

definition has_marker :: "u8 list \<Rightarrow> nat \<Rightarrow> bool" where
  "has_marker m p \<longleftrightarrow>
     u8_get m p = Some 0x6d \<and>
     u8_get m (p + 1) = Some 0x65 \<and>
     u8_get m (p + 2) = Some 0x6d \<and>
     u8_get m (p + 3) = Some 0x6f \<and>
     u8_get m (p + 4) = Some 0x72 \<and>
     u8_get m (p + 5) = Some 0x79 \<and>
     u8_get m (p + 6) = Some 0x00"

definition has_placeholder :: "u8 list \<Rightarrow> nat \<Rightarrow> bool" where
  "has_placeholder m p \<longleftrightarrow>
     u8_get m (p + 24) = Some 0x01 \<and>
     u8_get m (p + 25) = Some 0xF0 \<and>
     u8_get m (p + 26) = Some 0x00 \<and>
     u8_get m (p + 27) = Some 0x00"

text \<open>
  The frame of the patch. \<open>m\<close> has the length of \<open>m0\<close>, and a byte of \<open>m\<close> that differs
  from \<open>m0\<close> is one of the two size bytes of a position \<open>p\<close> below \<open>k\<close> at which \<open>m\<close>
  has the marker, \<open>m0\<close> had the placeholder and \<open>m\<close> has the patched field.
\<close>

definition marked_fields_only :: "int \<Rightarrow> nat \<Rightarrow> u8 list \<Rightarrow> u8 list \<Rightarrow> bool" where
  "marked_fields_only msize k m0 m \<longleftrightarrow>
     length m = length m0 \<and>
     (\<forall>q<length m0. m ! q \<noteq> m0 ! q \<longrightarrow>
        (\<exists>p<k. (q = p + 24 \<or> q = p + 25) \<and>
               has_marker m p \<and> has_placeholder m0 p \<and> patched msize m p))"

text \<open>The same with the marker in \<open>m0\<close> itself: only fields of markers of the image change.\<close>

definition image_fields_only :: "int \<Rightarrow> nat \<Rightarrow> u8 list \<Rightarrow> u8 list \<Rightarrow> bool" where
  "image_fields_only msize k m0 m \<longleftrightarrow>
     length m = length m0 \<and>
     (\<forall>q<length m0. m ! q \<noteq> m0 ! q \<longrightarrow>
        (\<exists>p<k. (q = p + 24 \<or> q = p + 25) \<and>
               has_marker m0 p \<and> has_placeholder m0 p \<and> patched msize m p))"

text \<open>
  An invariant of the scan: \<open>m\<close> has the length of \<open>m0\<close> and differs from it only where
  a byte 01 at offset 24, or a byte F0 at offset 25, from a position below \<open>k\<close> was
  replaced by the size byte.
\<close>

definition size_fields_only :: "int \<Rightarrow> nat \<Rightarrow> u8 list \<Rightarrow> u8 list \<Rightarrow> bool" where
  "size_fields_only msize k m0 m \<longleftrightarrow>
     length m = length m0 \<and>
     (\<forall>q<length m0. m ! q \<noteq> m0 ! q \<longrightarrow>
        (24 \<le> q \<and> q < k + 24 \<and> m0 ! q = 0x01 \<and> m ! q = size_hi msize) \<or>
        (25 \<le> q \<and> q < k + 25 \<and> m0 ! q = 0xF0 \<and> m ! q = size_lo msize))"

text \<open>
  The specification's reading of the patched field for a configured size of \<open>S\<close> MB,
  for comparison with \<open>PatchKernel\<close> after \<open>Init\<close>.
\<close>

definition spec_size_field :: "int \<Rightarrow> u8 list" where
  "spec_size_field S =
     [to_uint8 (js_sar (S * 0x100000) 24), to_uint8 (js_sar (S * 0x100000) 16), 0x00, 0x00]"

text \<open>
  A memory node of a flattened device tree with one address cell: the string "memory",
  the header of the \<open>reg\<close> property, the base address 0 and the placeholder size.
\<close>

definition dts_image :: "u8 list" where
  "dts_image =
     [0x6d, 0x65, 0x6d, 0x6f, 0x72, 0x79, 0x00, 0x00,
      0x00, 0x00, 0x00, 0x03, 0x00, 0x00, 0x00, 0x08,
      0x00, 0x00, 0x00, 0x4b, 0x00, 0x00, 0x00, 0x00,
      0x01, 0xF0, 0x00, 0x00]"

text \<open>
  An image in which "memory" stands right before the placeholder of a node, with a
  second placeholder 24 bytes after its sixth letter.
\<close>

definition dts_chain_image :: "u8 list" where
  "dts_chain_image =
     [0x6d, 0x65, 0x6d, 0x6f, 0x72, 0x79, 0x00, 0x00,
      0x00, 0x00, 0x00, 0x00, 0x00, 0x00, 0x00, 0x00,
      0x00, 0x00, 0x6d, 0x65, 0x6d, 0x6f, 0x72, 0x79,
      0x01, 0xF0, 0x00, 0x00, 0x00, 0x00, 0x00, 0x00,
      0x00, 0x00, 0x00, 0x00, 0x00, 0x00, 0x00, 0x00,
      0x00, 0x00, 0x01, 0xF0, 0x00, 0x00]"

text \<open>The start state stopped and configured by \<open>Init\<close> for 32 MB, respectively 2 MB.\<close>

definition sys_32MB :: "scripted system" where
  "sys_32MB = Init \<lparr>cfg_memorysize = 32, cfg_ncores = 1\<rparr> (cpu sys0) (timer sys0) [] sys0"

definition sys_2MB :: "scripted system" where
  "sys_2MB = Init \<lparr>cfg_memorysize = 2, cfg_ncores = 1\<rparr> (cpu sys0) (timer sys0) [] sys0"

section \<open>Properties of the scheduler\<close>

lemmas sched_defs = log_event_def message_Send_def GetMilliseconds_def clearTimeout_def
  setTimeout_def call_RaiseInterrupt_def call_ClearInterrupt_def call_ProgressTime_def
  call_Step_def

lemma HandleHalt_frame:
  "ips (HandleHalt K s) = ips s" "cpu (HandleHalt K s) = cpu s"
  "timer (HandleHalt K s) = timer s" "uint8mem (HandleHalt K s) = uint8mem s"
  "clock (HandleHalt K s) = clock s" "memorysize (HandleHalt K s) = memorysize s"
  "ticksperms (HandleHalt K s) = ticksperms s"
  by (simp_all add: HandleHalt_def Let_def sched_defs split: prod.splits)

lemma MainLoop_ips_run:
  "status s = SYSTEM_RUN \<Longrightarrow>
   ips (MainLoop K s) = ips s + (quantumBudget s - unusedBudget K s + 1)"
  by (simp add: MainLoop_def Let_def HandleHalt_frame sched_defs quantumBudget_def
      unusedBudget_def split: prod.splits)

lemma MainLoop_not_running: "status s \<noteq> SYSTEM_RUN \<Longrightarrow> MainLoop K s = s"
  by (simp add: MainLoop_def)

lemma unused_le_budget: "step_within_budget K \<Longrightarrow> unusedBudget K s \<le> quantumBudget s"
  by (simp add: step_within_budget_def unusedBudget_def quantumBudget_def)

lemma MainLoop_ips_mono: "step_within_budget K \<Longrightarrow> ips s \<le> ips (MainLoop K s)"
  using MainLoop_ips_run [of s K] MainLoop_not_running [of s K] unused_le_budget [of K s]
  by (cases "status s = SYSTEM_RUN") auto

subsection \<open>The count of a quantum\<close>

text \<open>
  C4, as amended. A quantum that runs while the state is \<open>SYSTEM_RUN\<close> adds
  \<open>quantumBudget - unusedBudget + 1\<close> to the instructions-per-second counter: the
  increment by one is unconditional, it is not a floor. The count is therefore at least 1
  whenever the CPU returns no more than its budget, and exactly 1 when it returns all of it.
\<close>

theorem C4_quantum_count:
  "status s = SYSTEM_RUN \<Longrightarrow>
     ips (MainLoop K s) - ips s = quantumBudget s - unusedBudget K s + 1 \<and>
     (unusedBudget K s \<le> quantumBudget s \<longrightarrow> 1 \<le> ips (MainLoop K s) - ips s)"
  using MainLoop_ips_run [of s K] by simp

theorem C4_quantum_count_witness:
  "status (sys0\<lparr>cpu := (cpu sys0)\<lparr>left := 10\<rparr>\<rparr>) = SYSTEM_RUN \<and>
   unusedBudget scripted_cpu (sys0\<lparr>cpu := (cpu sys0)\<lparr>left := 10\<rparr>\<rparr>) =
     quantumBudget (sys0\<lparr>cpu := (cpu sys0)\<lparr>left := 10\<rparr>\<rparr>) \<and>
   ips (MainLoop scripted_cpu (sys0\<lparr>cpu := (cpu sys0)\<lparr>left := 10\<rparr>\<rparr>)) -
     ips (sys0\<lparr>cpu := (cpu sys0)\<lparr>left := 10\<rparr>\<rparr>) = 1"
  using C4_quantum_count [of "sys0\<lparr>cpu := (cpu sys0)\<lparr>left := 10\<rparr>\<rparr>" scripted_cpu]
  by (simp add: sys0_def scripted_cpu_def quantumBudget_def unusedBudget_def)

text \<open>
  C4 as stated fails: with a budget of 10 and nothing unused the quantum counts 11,
  where "budget - unused with a floor of 1" is 10.
\<close>

theorem C4_floor_counterexample:
  "ips (MainLoop scripted_cpu sys0) - ips sys0 = 11 \<and>
   spec_consumed (quantumBudget sys0) (unusedBudget scripted_cpu sys0) = 10"
  by (simp add: MainLoop_def Let_def sched_defs quantumBudget_def unusedBudget_def
      spec_consumed_def sys0_def scripted_cpu_def split: prod.splits)

subsection \<open>Timeouts that are no longer pending\<close>

lemma HandleHalt_cancelled: "cancelled h s \<Longrightarrow> cancelled h (HandleHalt K s)"
  by (auto simp add: cancelled_def HandleHalt_def Let_def sched_defs split: prod.splits)

lemma MainLoop_cancelled: "cancelled h s \<Longrightarrow> cancelled h (MainLoop K s)"
  apply (auto simp add: MainLoop_def Let_def sched_defs split: prod.splits intro!: HandleHalt_cancelled)
  apply (simp_all add: cancelled_def)
  done

lemma wake_callback_cancelled: "cancelled h s \<Longrightarrow> cancelled h (wake_callback K d s)"
proof -
  assume c: "cancelled h s"
  have "cancelled h (call_ProgressTime K d (s\<lparr>status := SYSTEM_RUN\<rparr>))"
    using c by (simp add: cancelled_def sched_defs)
  then show ?thesis
    by (simp add: wake_callback_def MainLoop_cancelled c)
qed

lemma filter_cancelled:
  "cancelled h s \<Longrightarrow> cancelled h (s\<lparr>timeouts := filter P (timeouts s)\<rparr>)"
  by (auto simp add: cancelled_def)

lemma fire_timeout_cancelled:
  "cancelled h s \<Longrightarrow> fire_timeout K h' s = Some s' \<Longrightarrow> cancelled h s'"
  by (auto simp add: fire_timeout_def wake_callback_cancelled filter_cancelled split: option.splits)

lemma clamp_min: "(if b < a then b else a) = min a (b::int)"
  by (simp add: min_def)

lemma RaiseInterrupt_halted:
  "status s = SYSTEM_HALT \<Longrightarrow>
   RaiseInterrupt K line s =
     MainLoop K
       (s\<lparr>status := SYSTEM_RUN,
          timeouts := (case idletimeouthandle s of None \<Rightarrow> timeouts s
                       | Some h \<Rightarrow> filter (\<lambda>t. fst t \<noteq> h) (timeouts s)),
          cpu := cpu_ProgressTime K (min ((clock s - idletime s) * ticksperms s) (idlemaxwait s))
                   (cpu_RaiseInterrupt K line (- 1) (cpu s)),
          trace := trace s @
            [CpuRaiseInterrupt line (- 1), HostClearTimeout (idletimeouthandle s),
             CpuProgressTime (min ((clock s - idletime s) * ticksperms s) (idlemaxwait s))]\<rparr>)"
  by (cases "idletimeouthandle s")
     (simp_all add: RaiseInterrupt_def Let_def sched_defs clamp_min)

lemma RaiseInterrupt_not_halted:
  "status s \<noteq> SYSTEM_HALT \<Longrightarrow> RaiseInterrupt K line s = call_RaiseInterrupt K line (- 1) s"
  by (simp add: RaiseInterrupt_def Let_def sched_defs)

lemma RaiseInterrupt_cancelled: "cancelled h s \<Longrightarrow> cancelled h (RaiseInterrupt K line s)"
proof (cases "status s = SYSTEM_HALT")
  case True
  assume c: "cancelled h s"
  show ?thesis
    unfolding RaiseInterrupt_halted [OF True]
    by (rule MainLoop_cancelled) (use c in \<open>auto simp add: cancelled_def split: option.splits\<close>)
next
  case False
  assume c: "cancelled h s"
  show ?thesis
    unfolding RaiseInterrupt_not_halted [OF False]
    using c by (simp add: cancelled_def sched_defs)
qed

lemma OnKernelLoaded_host:
  "timeouts (OnKernelLoaded K L b s) = timeouts s" "next_handle (OnKernelLoaded K L b s) = next_handle s"
  "ips (OnKernelLoaded K L b s) = ips s"
  by (simp_all add: OnKernelLoaded_def Let_def sched_defs SendStringToTerminal_def normalize_def
      PatchKernel_def split: prod.splits)

lemma dispatch_cancelled: "cancelled h s \<Longrightarrow> cancelled h (dispatch K L s c)"
proof (cases c)
  case (TimeoutDue h')
  assume "cancelled h s"
  then show ?thesis
    using TimeoutDue fire_timeout_cancelled [of h s K h']
    by (simp split: option.splits)
qed (simp_all add: MainLoop_cancelled RaiseInterrupt_cancelled,
     auto simp add: cancelled_def Reset_def GetIPS_def Init_def Let_def sched_defs OnKernelLoaded_host
       ClearInterrupt_def RaiseSoftInterrupt_def ClearSoftInterrupt_def)

lemma run_cancelled: "cancelled h s \<Longrightarrow> cancelled h (run K L s cs)"
  unfolding run_def by (induction cs arbitrary: s) (simp_all add: dispatch_cancelled)

lemma cancelled_never_fires: "cancelled h s \<Longrightarrow> fire_timeout K h s = None"
proof -
  assume "cancelled h s"
  then have "find (\<lambda>t. fst t = h) (timeouts s) = None"
    by (auto simp add: cancelled_def find_None_iff)
  then show ?thesis by (simp add: fire_timeout_def)
qed

subsection \<open>What idle handling and a quantum do to the state\<close>

lemma ilog2_numeral:
  "ilog2 (numeral k) x =
     (if x < 1 then ilog2 (pred_numeral k) (2 * x) - 1
      else if 2 \<le> x then ilog2 (pred_numeral k) (x / 2) + 1 else 0)"
  by (simp add: numeral_eq_Suc)

lemmas double_eval = mswait_of_def to_double_def nearest_def ulp_of_def pow2_def
  round_half_even_def ilog2_numeral

text \<open>
  Idle waits at 20000 cycles per millisecond. In the last two the rounding of the
  quotients decides: the exact quotients are just below 1.5 and 2.5.
\<close>

lemma mswait_100000: "mswait_of 100000 20000 1 = Num 5"
  by (simp add: double_eval)

lemma mswait_60000: "mswait_of 60000 20000 1 = Num 3"
  by (simp add: double_eval)

lemma mswait_20000: "mswait_of 20000 20000 1 = Num 1"
  by (simp add: double_eval)

lemma mswait_27000_rounded: "mswait_of 27000 20000 0.9 = Num 2"
  by (simp add: double_eval)

lemma mswait_5000_rounded: "mswait_of 5000 20000 0.1 = Num 3"
  by (simp add: double_eval)

lemma mswait_no_correction: "mswait_of 100000 20000 0 = PosInfinity"
  by (simp add: double_eval)

lemmas mswait_eval = mswait_100000 mswait_60000 mswait_20000 mswait_27000_rounded
  mswait_5000_rounded mswait_no_correction

lemma HandleHalt_skip:
  "cpu_GetTimeToNextInterrupt K (cpu s) = - 1 \<or>
   js_le (mswait_of (cpu_GetTimeToNextInterrupt K (cpu s)) (ticksperms s) (correction (timer s))) 1 \<Longrightarrow>
   status (HandleHalt K s) = status s \<and> timeouts (HandleHalt K s) = timeouts s \<and>
   next_handle (HandleHalt K s) = next_handle s \<and>
   idletimeouthandle (HandleHalt K s) = idletimeouthandle s \<and>
   trace (HandleHalt K s) = trace s"
  by (auto simp add: HandleHalt_def Let_def)

lemma HandleHalt_idle:
  "\<not> (cpu_GetTimeToNextInterrupt K (cpu s) = - 1 \<or>
      js_le (mswait_of (cpu_GetTimeToNextInterrupt K (cpu s)) (ticksperms s) (correction (timer s))) 1) \<Longrightarrow>
   status (HandleHalt K s) = SYSTEM_HALT \<and>
   timeouts (HandleHalt K s) =
     timeouts s @ [(next_handle s,
       mswait_of (cpu_GetTimeToNextInterrupt K (cpu s)) (ticksperms s) (correction (timer s)),
       cpu_GetTimeToNextInterrupt K (cpu s))] \<and>
   next_handle (HandleHalt K s) = Suc (next_handle s) \<and>
   idletimeouthandle (HandleHalt K s) = Some (next_handle s) \<and>
   idletime (HandleHalt K s) = clock s \<and>
   idlemaxwait (HandleHalt K s) = cpu_GetTimeToNextInterrupt K (cpu s)"
  by (simp add: HandleHalt_def Let_def sched_defs split: prod.splits)

lemma MainLoop_status:
  "status s = SYSTEM_RUN \<Longrightarrow>
   status (MainLoop K s) = SYSTEM_RUN \<or>
   (status (MainLoop K s) = SYSTEM_HALT \<and>
    idletimeouthandle (MainLoop K s) = Some (next_handle s) \<and>
    next_handle (MainLoop K s) = Suc (next_handle s) \<and>
    (\<exists>w d. timeouts (MainLoop K s) = timeouts s @ [(next_handle s, w, d)]))"
proof -
  assume run: "status s = SYSTEM_RUN"
  let ?q = "(s\<lparr>trace := trace s @ [MsgSend ''execute'' 0, CpuStep (instructionsperloop (timer s)) (timercyclesperinstruction (timer s))],
              ips := ips s + (quantumBudget s - unusedBudget K s + 1),
              cpu := uartdevs_Step K (snd (cpu_Step K (instructionsperloop (timer s)) (timercyclesperinstruction (timer s)) (cpu s))),
              timer := timer_Update K (quantumBudget s - unusedBudget K s + 1)
                 (cpu_GetTicks K (uartdevs_Step K (snd (cpu_Step K (instructionsperloop (timer s)) (timercyclesperinstruction (timer s)) (cpu s)))))
                 (unusedBudget K s \<noteq> 0) (timer s)\<rparr>)"
  have eq: "MainLoop K s = (if unusedBudget K s \<noteq> 0 then HandleHalt K ?q else ?q)"
    using run
    by (simp add: MainLoop_def Let_def sched_defs quantumBudget_def unusedBudget_def split: prod.splits)
  show ?thesis
  proof (cases "unusedBudget K s \<noteq> 0")
    case False
    then show ?thesis using eq run by simp
  next
    case True
    then have m: "MainLoop K s = HandleHalt K ?q" using eq by simp
    show ?thesis
      using HandleHalt_skip [of K ?q] HandleHalt_idle [of K ?q] run
      unfolding m by (cases "cpu_GetTimeToNextInterrupt K (cpu ?q) = - 1 \<or>
        js_le (mswait_of (cpu_GetTimeToNextInterrupt K (cpu ?q)) (ticksperms ?q) (correction (timer ?q))) 1")
        simp_all
  qed
qed

lemma MainLoop_no_idle:
  "status s = SYSTEM_RUN \<Longrightarrow> unusedBudget K s = 0 \<Longrightarrow> status (MainLoop K s) = SYSTEM_RUN"
  by (simp add: MainLoop_def Let_def sched_defs unusedBudget_def split: prod.splits)

subsection \<open>Idle handling\<close>



subsection \<open>An interrupt raised while the system is idle\<close>

text \<open>
  C1. Let the system go idle from a running state \<open>s0\<close> (\<open>HandleHalt\<close> halts it), and
  let a line be raised when the clock shows \<open>t\<close>. \<open>RaiseInterrupt\<close> then is one run
  quantum (\<open>MainLoop\<close>) started synchronously in the state in which, in this order, the
  line was forwarded to all cores of the CPU, the timeout set at idle entry was
  cancelled, and the CPU's clock was advanced by the smaller of the cycles elapsed since
  idle entry, \<open>(t - clock s0) * ticksperms\<close>, and the cycles budgeted at idle entry;
  the state is \<open>SYSTEM_RUN\<close> when the quantum starts.
\<close>

theorem C1_raise_wakes_idle:
  assumes "status s0 = SYSTEM_RUN" and "status (HandleHalt K s0) = SYSTEM_HALT"
  shows "RaiseInterrupt K line ((HandleHalt K s0)\<lparr>clock := t\<rparr>) =
     MainLoop K
       ((HandleHalt K s0)
          \<lparr>clock := t,
           status := SYSTEM_RUN,
           timeouts := filter (\<lambda>x. fst x \<noteq> next_handle s0) (timeouts s0),
           cpu := cpu_ProgressTime K
                    (min ((t - clock s0) * ticksperms s0) (cpu_GetTimeToNextInterrupt K (cpu s0)))
                    (cpu_RaiseInterrupt K line (- 1) (cpu s0)),
           trace := trace (HandleHalt K s0) @
             [CpuRaiseInterrupt line (- 1), HostClearTimeout (Some (next_handle s0)),
              CpuProgressTime
                (min ((t - clock s0) * ticksperms s0) (cpu_GetTimeToNextInterrupt K (cpu s0)))]\<rparr>) \<and>
     min ((t - clock s0) * ticksperms s0) (cpu_GetTimeToNextInterrupt K (cpu s0))
       \<le> cpu_GetTimeToNextInterrupt K (cpu s0)"
proof -
  have idle: "\<not> (cpu_GetTimeToNextInterrupt K (cpu s0) = - 1 \<or>
      js_le (mswait_of (cpu_GetTimeToNextInterrupt K (cpu s0)) (ticksperms s0) (correction (timer s0))) 1)"
    using HandleHalt_skip [of K s0] assms by auto
  note h = HandleHalt_idle [OF idle]
  have "status ((HandleHalt K s0)\<lparr>clock := t\<rparr>) = SYSTEM_HALT"
    using assms(2) by simp
  from RaiseInterrupt_halted [OF this, of K line]
  show ?thesis
    by (simp add: h HandleHalt_frame)
qed

theorem C1_raise_wakes_idle_witness:
  "status sys0 = SYSTEM_RUN \<and> status (HandleHalt scripted_cpu sys0) = SYSTEM_HALT \<and>
   trace (RaiseInterrupt scripted_cpu 3 ((HandleHalt scripted_cpu sys0)\<lparr>clock := 2\<rparr>)) =
     [HostSetTimeout 0 (Num 5), CpuRaiseInterrupt 3 (- 1), HostClearTimeout (Some 0),
      CpuProgressTime 40000, MsgSend ''execute'' 0, CpuStep 10 1] \<and>
   timeouts (RaiseInterrupt scripted_cpu 3 ((HandleHalt scripted_cpu sys0)\<lparr>clock := 2\<rparr>)) = [] \<and>
   status (RaiseInterrupt scripted_cpu 3 ((HandleHalt scripted_cpu sys0)\<lparr>clock := 2\<rparr>)) = SYSTEM_RUN"
proof -
  have h: "HandleHalt scripted_cpu sys0 =
      sys0\<lparr>status := SYSTEM_HALT, idlemaxwait := 100000, idletimeouthandle := Some 0,
           timeouts := [(0, Num 5, 100000)], next_handle := 1,
           trace := [HostSetTimeout 0 (Num 5)]\<rparr>"
    by (simp add: HandleHalt_def Let_def sched_defs sys0_def scripted_cpu_def mswait_eval
        split: prod.splits)
  have r: "status sys0 = SYSTEM_RUN" by (simp add: sys0_def)
  have i: "status (HandleHalt scripted_cpu sys0) = SYSTEM_HALT" by (simp add: h)
  note c = C1_raise_wakes_idle [OF r i, of 3 2, unfolded h]
  show ?thesis
    unfolding h using c
    by (simp add: MainLoop_def Let_def sched_defs sys0_def scripted_cpu_def split: prod.splits)
qed

text \<open>
  C2, as amended. When a line is raised on a halted system whose idle timeout has handle
  \<open>h\<close>, that timeout is not pending when \<open>RaiseInterrupt\<close> returns and does not become
  pending again under any later sequence of commands, so it never fires. The state was set
  to \<open>SYSTEM_RUN\<close> before the resumed quantum; when the call returns it is \<open>SYSTEM_RUN\<close>
  if the CPU used its whole budget in that quantum, and otherwise either \<open>SYSTEM_RUN\<close> or
  \<open>SYSTEM_HALT\<close> again with a newly set timeout under a different handle.
\<close>

theorem C2_raise_cancels_wake:
  assumes "status s = SYSTEM_HALT" and "idletimeouthandle s = Some h" and "h < next_handle s"
  shows "fire_timeout K h (run K L (RaiseInterrupt K line s) cs) = None \<and>
     (status (RaiseInterrupt K line s) = SYSTEM_RUN \<or>
      (status (RaiseInterrupt K line s) = SYSTEM_HALT \<and>
       idletimeouthandle (RaiseInterrupt K line s) = Some (next_handle s) \<and>
       next_handle s \<noteq> h)) \<and>
     (fst (cpu_Step K (instructionsperloop (timer s)) (timercyclesperinstruction (timer s))
            (cpu_ProgressTime K (min ((clock s - idletime s) * ticksperms s) (idlemaxwait s))
               (cpu_RaiseInterrupt K line (- 1) (cpu s)))) = 0
      \<longrightarrow> status (RaiseInterrupt K line s) = SYSTEM_RUN)"
proof -
  let ?q = "s\<lparr>status := SYSTEM_RUN,
          timeouts := (case idletimeouthandle s of None \<Rightarrow> timeouts s
                       | Some h \<Rightarrow> filter (\<lambda>t. fst t \<noteq> h) (timeouts s)),
          cpu := cpu_ProgressTime K (min ((clock s - idletime s) * ticksperms s) (idlemaxwait s))
                   (cpu_RaiseInterrupt K line (- 1) (cpu s)),
          trace := trace s @
            [CpuRaiseInterrupt line (- 1), HostClearTimeout (idletimeouthandle s),
             CpuProgressTime (min ((clock s - idletime s) * ticksperms s) (idlemaxwait s))]\<rparr>"
  have eq: "RaiseInterrupt K line s = MainLoop K ?q"
    by (rule RaiseInterrupt_halted [OF assms(1)])
  have run: "status ?q = SYSTEM_RUN" by simp
  have "cancelled h ?q"
    using assms(2,3) by (simp add: cancelled_def)
  then have "cancelled h (RaiseInterrupt K line s)"
    unfolding eq by (rule MainLoop_cancelled)
  then have "cancelled h (run K L (RaiseInterrupt K line s) cs)"
    by (rule run_cancelled)
  then have never: "fire_timeout K h (run K L (RaiseInterrupt K line s) cs) = None"
    by (rule cancelled_never_fires)
  have st: "status (RaiseInterrupt K line s) = SYSTEM_RUN \<or>
      (status (RaiseInterrupt K line s) = SYSTEM_HALT \<and>
       idletimeouthandle (RaiseInterrupt K line s) = Some (next_handle s) \<and>
       next_handle s \<noteq> h)"
    using MainLoop_status [OF run, of K] assms(3) unfolding eq by auto
  have noidle: "fst (cpu_Step K (instructionsperloop (timer s)) (timercyclesperinstruction (timer s))
            (cpu_ProgressTime K (min ((clock s - idletime s) * ticksperms s) (idlemaxwait s))
               (cpu_RaiseInterrupt K line (- 1) (cpu s)))) = 0
      \<longrightarrow> status (RaiseInterrupt K line s) = SYSTEM_RUN"
    using MainLoop_no_idle [OF run, of K] unfolding eq by (simp add: unusedBudget_def)
  from never st noidle show ?thesis by blast
qed

theorem C2_raise_cancels_wake_witness:
  "status sys_idle = SYSTEM_HALT \<and> idletimeouthandle sys_idle = Some 0 \<and>
   0 < next_handle sys_idle \<and>
   fire_timeout scripted_cpu 0
     (run scripted_cpu stub_loader (RaiseInterrupt scripted_cpu 3 sys_idle)
        [ClockAdvance 5, TimeoutDue 0, Execute]) = None \<and>
   idletimeouthandle (RaiseInterrupt scripted_cpu 3 sys_idle) = Some 1"
proof -
  have a: "status sys_idle = SYSTEM_HALT" "idletimeouthandle sys_idle = Some 0"
    "0 < next_handle sys_idle"
    by (simp_all add: sys_idle_def)
  have n: "next_handle sys_idle = 1" by (simp add: sys_idle_def)
  have b: "status (RaiseInterrupt scripted_cpu 3 sys_idle) = SYSTEM_HALT"
    by (simp add: RaiseInterrupt_def MainLoop_def HandleHalt_def mswait_eval Let_def
        sched_defs sys_idle_def scripted_cpu_def split: prod.splits)
  show ?thesis
    using C2_raise_cancels_wake [OF a, of scripted_cpu stub_loader 3
        "[ClockAdvance 5, TimeoutDue 0, Execute]"] a b n
    by simp
qed

text \<open>
  C2 as stated fails: the quantum that \<open>RaiseInterrupt\<close> resumes may find the CPU idle
  again, and then the system is halted when the call returns.
\<close>

theorem C2_running_after_raise_counterexample:
  "status sys_idle = SYSTEM_HALT \<and> status (RaiseInterrupt scripted_cpu 3 sys_idle) = SYSTEM_HALT"
  by (simp add: RaiseInterrupt_def MainLoop_def HandleHalt_def mswait_eval Let_def
      sched_defs sys_idle_def scripted_cpu_def split: prod.splits)


section \<open>The telemetry counter\<close>

lemma RaiseInterrupt_ips_mono: "step_within_budget K \<Longrightarrow> ips s \<le> ips (RaiseInterrupt K line s)"
proof (cases "status s = SYSTEM_HALT")
  case True
  assume w: "step_within_budget K"
  show ?thesis
    unfolding RaiseInterrupt_halted [OF True]
    by (rule order_trans [OF _ MainLoop_ips_mono [OF w]]) simp
next
  case False
  then show ?thesis by (simp add: RaiseInterrupt_not_halted sched_defs)
qed

lemma wake_callback_ips_mono: "step_within_budget K \<Longrightarrow> ips s \<le> ips (wake_callback K d s)"
proof (cases "status s = SYSTEM_HALT")
  case True
  assume w: "step_within_budget K"
  show ?thesis
    unfolding wake_callback_def using True
    by (simp add: order_trans [OF _ MainLoop_ips_mono [OF w]] sched_defs)
next
  case False
  then show ?thesis by (simp add: wake_callback_def)
qed

lemma fire_timeout_ips_mono:
  "step_within_budget K \<Longrightarrow> fire_timeout K h s = Some s' \<Longrightarrow> ips s \<le> ips s'"
proof -
  assume w: "step_within_budget K" and f: "fire_timeout K h s = Some s'"
  from f obtain t where
    "s' = wake_callback K (snd (snd t)) (s\<lparr>timeouts := filter (\<lambda>t. fst t \<noteq> h) (timeouts s)\<rparr>)"
    by (auto simp add: fire_timeout_def split: option.splits)
  then show ?thesis
    using wake_callback_ips_mono [OF w, of "s\<lparr>timeouts := filter (\<lambda>t. fst t \<noteq> h) (timeouts s)\<rparr>"]
    by simp
qed

lemma dispatch_ips_mono:
  "step_within_budget K \<Longrightarrow> \<not> zeroes_ips c \<Longrightarrow> ips s \<le> ips (dispatch K L s c)"
proof (cases c)
  case (TimeoutDue h)
  assume "step_within_budget K"
  then show ?thesis
    using TimeoutDue fire_timeout_ips_mono [of K h s] by (simp split: option.splits)
qed (simp_all add: MainLoop_ips_mono RaiseInterrupt_ips_mono OnKernelLoaded_host
      ClearInterrupt_def RaiseSoftInterrupt_def ClearSoftInterrupt_def sched_defs)

lemma dispatch_ips_zero: "zeroes_ips c \<Longrightarrow> ips (dispatch K L s c) = 0"
  by (cases c) (simp_all add: GetIPS_def Reset_def Init_def Let_def sched_defs)

lemma scripted_within_budget: "step_within_budget scripted_cpu"
  by (simp add: step_within_budget_def scripted_cpu_def)

text \<open>
  C9, as amended. With a CPU that returns no more than its budget, no command other than
  \<open>GetIPS\<close>, \<open>Reset\<close> and \<open>Init\<close> lowers the counter, and a quantum that runs adds its
  count; \<open>GetIPS\<close>, \<open>Reset\<close> and \<open>Init\<close> set it to zero. \<open>GetIPS\<close> sends exactly the
  counter's value and zeroes it, so a second call at once sends 0.
\<close>

theorem C9_telemetry_counter:
  assumes "step_within_budget K"
  shows "(\<not> zeroes_ips c \<longrightarrow> ips s \<le> ips (dispatch K L s c)) \<and>
     (zeroes_ips c \<longrightarrow> ips (dispatch K L s c) = 0) \<and>
     (status s = SYSTEM_RUN \<longrightarrow>
        ips (dispatch K L s Execute) = ips s + (quantumBudget s - unusedBudget K s + 1)) \<and>
     trace (GetIPS s) = trace s @ [MsgSend ''GetIPS'' (ips s)] \<and>
     ips (GetIPS s) = 0 \<and>
     trace (GetIPS (GetIPS s)) = trace s @ [MsgSend ''GetIPS'' (ips s), MsgSend ''GetIPS'' 0]"
proof -
  have g: "trace (GetIPS s) = trace s @ [MsgSend ''GetIPS'' (ips s)]" "ips (GetIPS s) = 0"
    "trace (GetIPS (GetIPS s)) = trace s @ [MsgSend ''GetIPS'' (ips s), MsgSend ''GetIPS'' 0]"
    by (simp_all add: GetIPS_def sched_defs)
  show ?thesis
    using dispatch_ips_mono [OF assms, of c s L] dispatch_ips_zero [of c K L s]
      MainLoop_ips_run [of s K] g
    by simp
qed

theorem C9_telemetry_counter_witness:
  "step_within_budget scripted_cpu \<and>
   ips sys_idle \<le> ips (dispatch scripted_cpu stub_loader sys_idle (Raise 3)) \<and>
   ips (dispatch scripted_cpu stub_loader sys_idle DoReset) = 0 \<and>
   ips (dispatch scripted_cpu stub_loader sys0 Execute) = 11 \<and>
   trace (GetIPS (GetIPS sys_idle)) = [MsgSend ''GetIPS'' 7, MsgSend ''GetIPS'' 0]"
  using C9_telemetry_counter [OF scripted_within_budget, of "Raise 3" sys_idle stub_loader]
    C9_telemetry_counter [OF scripted_within_budget, of DoReset sys_idle stub_loader]
    C9_telemetry_counter [OF scripted_within_budget, of Execute sys0 stub_loader]
    scripted_within_budget
  by (simp add: sys_idle_def sys0_def quantumBudget_def unusedBudget_def scripted_cpu_def)

text \<open>
  C9 as stated fails: \<open>Reset\<close> zeroes a counter of 7 without any \<open>GetIPS\<close> being
  answered.
\<close>

theorem C9_reset_zeroes_counterexample:
  "ips sys_idle = 7 \<and> ips (Reset scripted_cpu sys_idle) = 0 \<and>
   trace (Reset scripted_cpu sys_idle) = [DevicesReset]"
  by (simp add: Reset_def Let_def sched_defs sys_idle_def)

section \<open>The directed interrupt operations\<close>

text \<open>
  C10. \<open>RaiseSoftInterrupt\<close> and \<open>ClearSoftInterrupt\<close> only forward to the CPU: in every
  state, halted or not, the result differs from the argument in the CPU's state after the
  forwarded call and in the record of that one call. The scheduler's state, the timeout
  queue and its stored handle and the telemetry counter are as before, and no
  \<open>ProgressTime\<close> is issued.
\<close>

theorem C10_soft_interrupts_only_forward:
  "RaiseSoftInterrupt K line cpuid s =
     s\<lparr>cpu := cpu_RaiseInterrupt K line cpuid (cpu s),
       trace := trace s @ [CpuRaiseInterrupt line cpuid]\<rparr> \<and>
   ClearSoftInterrupt K line cpuid s =
     s\<lparr>cpu := cpu_ClearInterrupt K line cpuid (cpu s),
       trace := trace s @ [CpuClearInterrupt line cpuid]\<rparr> \<and>
   status (RaiseSoftInterrupt K line cpuid s) = status s \<and>
   status (ClearSoftInterrupt K line cpuid s) = status s \<and>
   timeouts (RaiseSoftInterrupt K line cpuid s) = timeouts s \<and>
   timeouts (ClearSoftInterrupt K line cpuid s) = timeouts s \<and>
   idletimeouthandle (RaiseSoftInterrupt K line cpuid s) = idletimeouthandle s \<and>
   idletimeouthandle (ClearSoftInterrupt K line cpuid s) = idletimeouthandle s \<and>
   ips (RaiseSoftInterrupt K line cpuid s) = ips s \<and>
   ips (ClearSoftInterrupt K line cpuid s) = ips s"
  by (simp add: RaiseSoftInterrupt_def ClearSoftInterrupt_def sched_defs)

theorem C10_soft_interrupts_only_forward_witness:
  "status (RaiseSoftInterrupt scripted_cpu 3 0 sys_idle) = SYSTEM_HALT \<and>
   timeouts (RaiseSoftInterrupt scripted_cpu 3 0 sys_idle) = [(0, Num 5, 100000)] \<and>
   trace (RaiseSoftInterrupt scripted_cpu 3 0 sys_idle) = [CpuRaiseInterrupt 3 0] \<and>
   trace (ClearSoftInterrupt scripted_cpu 3 0 sys_idle) = [CpuClearInterrupt 3 0] \<and>
   ips (ClearSoftInterrupt scripted_cpu 3 0 sys_idle) = 7"
  using C10_soft_interrupts_only_forward [of scripted_cpu 3 0 sys_idle]
  by (simp add: sys_idle_def)

section \<open>The boot loader\<close>

subsection \<open>The bytes that \<open>PatchKernel\<close> writes\<close>

lemma mb_push_bit: "ms * 0x100000 = push_bit 20 (ms::int)"
  by (simp add: push_bit_eq_mult)

lemma size_lo_closed: "size_lo ms = word_of_int (push_bit 4 ms)"
  unfolding size_lo_def to_uint8_def js_sar_def mb_push_bit
  by (rule bit_word_eqI) (auto simp add: bit_simps)

lemma size_hi_closed: "size_hi ms = word_of_int (drop_bit 4 ms)"
  unfolding size_hi_def to_uint8_def js_sar_def mb_push_bit
  by (rule bit_word_eqI) (auto simp add: bit_simps)

lemma size_lo_not_1: "size_lo ms \<noteq> 1"
proof
  assume "size_lo ms = 1"
  then have "bit (word_of_int (push_bit 4 ms) :: 8 word) 0"
    by (simp add: size_lo_closed)
  then show False by (simp add: bit_simps)
qed

lemma dts_found_iff:
  "dts_found m i \<longleftrightarrow>
     i + 27 < length m \<and> m ! i = 0x6d \<and> m ! (i + 1) = 0x65 \<and> m ! (i + 2) = 0x6d \<and>
     m ! (i + 3) = 0x6f \<and> m ! (i + 4) = 0x72 \<and> m ! (i + 5) = 0x79 \<and> m ! (i + 6) = 0x00 \<and>
     m ! (i + 24) = 0x01 \<and> m ! (i + 25) = 0xF0 \<and> m ! (i + 26) = 0x00 \<and> m ! (i + 27) = 0x00"
  by (auto simp add: dts_found_def u8_get_def split: if_splits)

lemma dts_write_found:
  "i + 27 < length m \<Longrightarrow>
   dts_write ms m i = m[i + 24 := size_hi ms, i + 25 := size_lo ms, i + 26 := 0, i + 27 := 0]"
  by (simp add: dts_write_def u8_set_def Let_def size_hi_def size_lo_def)

lemma patched_iff:
  "patched ms m i \<longleftrightarrow>
     i + 27 < length m \<and> m ! (i + 24) = size_hi ms \<and> m ! (i + 25) = size_lo ms \<and>
     m ! (i + 26) = 0 \<and> m ! (i + 27) = 0"
  by (auto simp add: patched_def u8_get_def split: if_splits)

subsection \<open>The scan of \<open>PatchKernel\<close>\<close>

lemma size_fields_only_refl: "size_fields_only ms 0 m m"
  by (simp add: size_fields_only_def)

lemma size_fields_only_Suc: "size_fields_only ms k m0 m \<Longrightarrow> size_fields_only ms (Suc k) m0 m"
  unfolding size_fields_only_def by auto

lemma size_fields_onlyD:
  "size_fields_only ms k m0 m \<Longrightarrow> q < length m0 \<Longrightarrow> m ! q \<noteq> m0 ! q \<Longrightarrow>
     (24 \<le> q \<and> q < k + 24 \<and> m0 ! q = 0x01 \<and> m ! q = size_hi ms) \<or>
     (25 \<le> q \<and> q < k + 25 \<and> m0 ! q = 0xF0 \<and> m ! q = size_lo ms)"
  by (simp add: size_fields_only_def)

text \<open>A match in the original memory is still a match when the scan reaches it.\<close>

lemma found_when_reached:
  assumes inv: "size_fields_only ms k m0 m" and f: "dts_found m0 k"
  shows "dts_found m k"
proof -
  from f have b: "k + 27 < length m0" by (simp add: dts_found_iff)
  have len: "length m = length m0" using inv by (simp add: size_fields_only_def)
  have same: "m ! q = m0 ! q"
    if "q < length m0" "m0 ! q \<noteq> 0x01 \<or> k + 24 \<le> q" "m0 ! q \<noteq> 0xF0 \<or> k + 25 \<le> q" for q
  proof (rule ccontr)
    assume "m ! q \<noteq> m0 ! q"
    from size_fields_onlyD [OF inv that(1) this] that(2,3) show False by auto
  qed
  have "m ! (k + j) = m0 ! (k + j)" if "j \<in> {0, 1, 2, 3, 4, 5, 6, 24, 25, 26, 27}" for j
  proof (rule same)
    show "k + j < length m0" using that b by auto
    show "m0 ! (k + j) \<noteq> 0x01 \<or> k + 24 \<le> k + j"
      using that f by (auto simp add: dts_found_iff)
    show "m0 ! (k + j) \<noteq> 0xF0 \<or> k + 25 \<le> k + j"
      using that f by (auto simp add: dts_found_iff)
  qed
  from this [of 0] this [of 1] this [of 2] this [of 3] this [of 4] this [of 5] this [of 6]
    this [of 24] this [of 25] this [of 26] this [of 27]
  show ?thesis
    using f by (simp add: dts_found_iff len)
qed

text \<open>One round of the scan keeps the invariant.\<close>

lemma size_fields_only_step:
  assumes inv: "size_fields_only ms k m0 m"
  shows "size_fields_only ms (Suc k) m0 (if dts_found m k then dts_write ms m k else m)"
proof (cases "dts_found m k")
  case False
  then show ?thesis using size_fields_only_Suc [OF inv] by simp
next
  case True
  then have b: "k + 27 < length m" and v: "m ! (k + 24) = 0x01" "m ! (k + 25) = 0xF0"
    "m ! (k + 26) = 0" "m ! (k + 27) = 0"
    by (simp_all add: dts_found_iff)
  have len: "length m = length m0" using inv by (simp add: size_fields_only_def)
  let ?m' = "m[k + 24 := size_hi ms, k + 25 := size_lo ms, k + 26 := 0, k + 27 := 0]"
  have o24: "m0 ! (k + 24) = 0x01"
  proof (rule ccontr)
    assume "m0 ! (k + 24) \<noteq> 0x01"
    then have "m ! (k + 24) \<noteq> m0 ! (k + 24)" using v by simp
    then have "m ! (k + 24) = size_lo ms"
      using size_fields_onlyD [OF inv, of "k + 24"] b len by auto
    then show False using v size_lo_not_1 [of ms] by simp
  qed
  have o25: "m0 ! (k + 25) = 0xF0"
  proof (rule ccontr)
    assume "m0 ! (k + 25) \<noteq> 0xF0"
    then have "m ! (k + 25) \<noteq> m0 ! (k + 25)" using v by simp
    then show False
      using size_fields_onlyD [OF inv, of "k + 25"] b len by auto
  qed
  have "size_fields_only ms (Suc k) m0 ?m'"
    unfolding size_fields_only_def
  proof (intro conjI allI impI)
    show "length ?m' = length m0" using len by simp
  next
    fix q assume q: "q < length m0" and d: "?m' ! q \<noteq> m0 ! q"
    consider "q = k + 24" | "q = k + 25" | "q = k + 26" | "q = k + 27"
      | "q \<noteq> k + 24" "q \<noteq> k + 25" "q \<noteq> k + 26" "q \<noteq> k + 27" by blast
    then show "(24 \<le> q \<and> q < Suc k + 24 \<and> m0 ! q = 0x01 \<and> ?m' ! q = size_hi ms) \<or>
        (25 \<le> q \<and> q < Suc k + 25 \<and> m0 ! q = 0xF0 \<and> ?m' ! q = size_lo ms)"
    proof cases
      case 1
      then show ?thesis using o24 b by simp
    next
      case 2
      then show ?thesis using o25 b by simp
    next
      case 3
      then have "m ! q \<noteq> m0 ! q" using d b v by simp
      then show ?thesis using size_fields_onlyD [OF inv, of q] q 3 by auto
    next
      case 4
      then have "m ! q \<noteq> m0 ! q" using d b v by simp
      then show ?thesis using size_fields_onlyD [OF inv, of q] q 4 by auto
    next
      case 5
      then have e: "?m' ! q = m ! q" by simp
      then have "m ! q \<noteq> m0 ! q" using d by simp
      then show ?thesis using size_fields_onlyD [OF inv, of q] q e by auto
    qed
  qed
  then show ?thesis using True b by (simp add: dts_write_found)
qed

lemma write_patched: "dts_found m k \<Longrightarrow> patched ms (dts_write ms m k) k"
  by (simp add: dts_found_iff dts_write_found patched_iff)

lemma patched_kept:
  assumes "i < k" and p: "patched ms m i"
  shows "patched ms (if dts_found m k then dts_write ms m k else m) i"
proof (cases "dts_found m k")
  case False
  then show ?thesis using p by simp
next
  case True
  then have b: "k + 27 < length m" and v: "m ! (k + 24) = 0x01"
    by (simp_all add: dts_found_iff)
  from p have pv: "m ! (i + 24) = size_hi ms" "m ! (i + 25) = size_lo ms"
    "m ! (i + 26) = 0" "m ! (i + 27) = 0" "i + 27 < length m"
    by (simp_all add: patched_iff)
  have "k \<noteq> i + 1"
  proof
    assume "k = i + 1"
    then have "k + 24 = i + 25" by simp
    from v [unfolded this] have "m ! (i + 25) = 0x01" .
    then show False using pv size_lo_not_1 [of ms] by simp
  qed
  moreover have "k \<noteq> i + 2"
  proof
    assume "k = i + 2"
    then have "k + 24 = i + 26" by simp
    from v [unfolded this] have "m ! (i + 26) = 0x01" .
    then show False using pv by simp
  qed
  moreover have "k \<noteq> i + 3"
  proof
    assume "k = i + 3"
    then have "k + 24 = i + 27" by simp
    from v [unfolded this] have "m ! (i + 27) = 0x01" .
    then show False using pv by simp
  qed
  ultimately have "i + 27 < k + 24" using \<open>i < k\<close> by linarith
  then show ?thesis
    using True b pv by (simp add: dts_write_found patched_iff)
qed

lemma PatchKernel_loop_inv:
  "size_fields_only ms k m0 m \<Longrightarrow> k \<le> len \<Longrightarrow>
   size_fields_only ms len m0 (PatchKernel_loop ms len k m)"
proof (induction ms len k m rule: PatchKernel_loop.induct)
  case (1 msize len i m)
  show ?case
  proof (cases "i < len")
    case True
    have "size_fields_only msize len m0
            (PatchKernel_loop msize len (Suc i) (if dts_found m i then dts_write msize m i else m))"
      using True "1.prems" by (intro "1.IH" size_fields_only_step) simp_all
    then show ?thesis using True by (subst PatchKernel_loop.simps) simp
  next
    case False
    then have "i = len" using "1.prems" by simp
    then show ?thesis using "1.prems" by (subst PatchKernel_loop.simps) simp
  qed
qed

lemma PatchKernel_loop_keeps:
  "i < k \<Longrightarrow> patched ms m i \<Longrightarrow> patched ms (PatchKernel_loop ms len k m) i"
proof (induction ms len k m rule: PatchKernel_loop.induct)
  case (1 msize len j m)
  show ?case
  proof (cases "j < len")
    case True
    have "patched msize
            (PatchKernel_loop msize len (Suc j) (if dts_found m j then dts_write msize m j else m)) i"
      using True "1.prems" by (intro "1.IH" patched_kept) simp_all
    then show ?thesis using True by (subst PatchKernel_loop.simps) simp
  next
    case False
    then show ?thesis using "1.prems" by (subst PatchKernel_loop.simps) simp
  qed
qed

lemma PatchKernel_loop_patches:
  "size_fields_only ms k m0 m \<Longrightarrow> k \<le> i \<Longrightarrow> i < len \<Longrightarrow> dts_found m0 i \<Longrightarrow>
   patched ms (PatchKernel_loop ms len k m) i"
proof (induction ms len k m rule: PatchKernel_loop.induct)
  case (1 msize len j m)
  have lt: "j < len" using "1.prems" by simp
  let ?m' = "if dts_found m j then dts_write msize m j else m"
  have step: "size_fields_only msize (Suc j) m0 ?m'"
    by (rule size_fields_only_step) (rule "1.prems")
  have "patched msize (PatchKernel_loop msize len (Suc j) ?m') i"
  proof (cases "j = i")
    case True
    have "dts_found m j"
      using found_when_reached [of msize j m0 m] "1.prems" True by simp
    then have "patched msize ?m' j" using write_patched by simp
    then show ?thesis
      using True by (intro PatchKernel_loop_keeps) simp_all
  next
    case False
    then show ?thesis
      using "1.prems" lt step by (intro "1.IH") simp_all
  qed
  then show ?case using lt by (subst PatchKernel_loop.simps) simp
qed

lemma Init_memorysize:
  "memorysize ((Init system c0 t0 ram0 s)\<lparr>uint8mem := m\<rparr>) = cfg_memorysize system - 1"
  by (simp add: Init_def Let_def)

lemmas patch_eval = PatchKernel_def Init_def Let_def PatchKernel_loop.simps dts_found_def
  u8_get_def dts_write_def u8_set_def to_uint8_def js_sar_def

lemma dts_found_split: "dts_found m p \<longleftrightarrow> has_marker m p \<and> has_placeholder m p"
  by (simp add: dts_found_def has_marker_def has_placeholder_def)

lemma has_marker_iff:
  "has_marker m p \<longleftrightarrow>
     p + 6 < length m \<and> m ! p = 0x6d \<and> m ! (p + 1) = 0x65 \<and> m ! (p + 2) = 0x6d \<and>
     m ! (p + 3) = 0x6f \<and> m ! (p + 4) = 0x72 \<and> m ! (p + 5) = 0x79 \<and> m ! (p + 6) = 0x00"
  by (auto simp add: has_marker_def u8_get_def split: if_splits)

lemma has_placeholder_iff:
  "has_placeholder m p \<longleftrightarrow>
     p + 27 < length m \<and> m ! (p + 24) = 0x01 \<and> m ! (p + 25) = 0xF0 \<and>
     m ! (p + 26) = 0x00 \<and> m ! (p + 27) = 0x00"
  by (auto simp add: has_placeholder_def u8_get_def split: if_splits)

text \<open>The placeholder that the scan meets is the one of the image.\<close>

lemma placeholder_original:
  assumes inv: "size_fields_only ms k m0 m" and f: "dts_found m k"
  shows "has_placeholder m0 k"
proof -
  from f have b: "k + 27 < length m" and v: "m ! (k + 24) = 0x01" "m ! (k + 25) = 0xF0"
    "m ! (k + 26) = 0" "m ! (k + 27) = 0"
    by (simp_all add: dts_found_iff)
  have len: "length m = length m0" using inv by (simp add: size_fields_only_def)
  have o24: "m0 ! (k + 24) = 0x01"
  proof (rule ccontr)
    assume "m0 ! (k + 24) \<noteq> 0x01"
    then have "m ! (k + 24) \<noteq> m0 ! (k + 24)" using v by simp
    then have "m ! (k + 24) = size_lo ms"
      using size_fields_onlyD [OF inv, of "k + 24"] b len by auto
    then show False using v size_lo_not_1 [of ms] by simp
  qed
  have o: "m0 ! (k + j) = m ! (k + j)" if "j = 25 \<or> j = 26 \<or> j = 27" for j
  proof (rule ccontr)
    assume "m0 ! (k + j) \<noteq> m ! (k + j)"
    then have "m ! (k + j) \<noteq> m0 ! (k + j)" by simp
    from size_fields_onlyD [OF inv _ this] that b len show False by auto
  qed
  from o [of 25] o [of 26] o [of 27] o24 v b len show ?thesis
    by (simp add: has_placeholder_iff)
qed

lemma has_marker_kept:
  assumes "p \<le> k" and mk: "has_marker m p"
  shows "has_marker (if dts_found m k then dts_write ms m k else m) p"
proof (cases "dts_found m k")
  case False
  then show ?thesis using mk by simp
next
  case True
  then have b: "k + 27 < length m" by (simp add: dts_found_iff)
  show ?thesis
    using True b mk \<open>p \<le> k\<close> by (simp add: dts_write_found has_marker_iff)
qed

lemma marked_fields_onlyD:
  "marked_fields_only ms k m0 m \<Longrightarrow> q < length m0 \<Longrightarrow> m ! q \<noteq> m0 ! q \<Longrightarrow>
   \<exists>p<k. (q = p + 24 \<or> q = p + 25) \<and> has_marker m p \<and> has_placeholder m0 p \<and> patched ms m p"
  by (simp add: marked_fields_only_def)

lemma marked_fields_only_refl: "marked_fields_only ms 0 m m"
  by (simp add: marked_fields_only_def)

lemma marked_fields_only_step:
  assumes old: "size_fields_only ms k m0 m" and inv: "marked_fields_only ms k m0 m"
  shows "marked_fields_only ms (Suc k) m0 (if dts_found m k then dts_write ms m k else m)"
proof -
  let ?m' = "if dts_found m k then dts_write ms m k else m"
  have len: "length m = length m0" using inv by (simp add: marked_fields_only_def)
  have len': "length ?m' = length m0"
    using len by (simp add: dts_write_def u8_set_def Let_def)
  have carried: "\<exists>p<Suc k. (q = p + 24 \<or> q = p + 25) \<and>
           has_marker ?m' p \<and> has_placeholder m0 p \<and> patched ms ?m' p"
    if q: "q < length m0" and d: "m ! q \<noteq> m0 ! q" for q
  proof -
    from marked_fields_onlyD [OF inv q d] obtain p where p: "p < k"
      "q = p + 24 \<or> q = p + 25" "has_marker m p" "has_placeholder m0 p" "patched ms m p"
      by blast
    have "has_marker ?m' p" using p by (intro has_marker_kept) simp_all
    moreover have "patched ms ?m' p" using p by (intro patched_kept) simp_all
    ultimately show ?thesis using p by (intro exI [of _ p]) simp
  qed
  show ?thesis
  proof (cases "dts_found m k")
    case False
    then show ?thesis
      unfolding marked_fields_only_def using len' carried by simp
  next
    case True
    then have b: "k + 27 < length m" and v: "m ! (k + 26) = 0" "m ! (k + 27) = 0"
      by (simp_all add: dts_found_iff)
    have ph: "has_placeholder m0 k" by (rule placeholder_original [OF old True])
    then have o: "m0 ! (k + 26) = 0" "m0 ! (k + 27) = 0"
      by (simp_all add: has_placeholder_iff)
    have mk: "has_marker ?m' k"
      using True by (intro has_marker_kept) (simp_all add: dts_found_split)
    have pt: "patched ms ?m' k" using True write_patched [of m k ms] by simp
    have new: "\<exists>p<Suc k. (q = p + 24 \<or> q = p + 25) \<and>
           has_marker ?m' p \<and> has_placeholder m0 p \<and> patched ms ?m' p"
      if q: "q < length m0" and d: "?m' ! q \<noteq> m0 ! q" for q
    proof -
      consider "q = k + 24 \<or> q = k + 25" | "q = k + 26" | "q = k + 27"
        | "q \<noteq> k + 24" "q \<noteq> k + 25" "q \<noteq> k + 26" "q \<noteq> k + 27" by blast
      then show ?thesis
      proof cases
        case 1
        then show ?thesis using mk ph pt by (intro exI [of _ k]) simp
      next
        case 2
        then have "?m' ! q = 0" using True b by (simp add: dts_write_found)
        then show ?thesis using d o 2 by simp
      next
        case 3
        then have "?m' ! q = 0" using True b by (simp add: dts_write_found)
        then show ?thesis using d o 3 by simp
      next
        case 4
        then have "?m' ! q = m ! q" using True b by (simp add: dts_write_found)
        then have "m ! q \<noteq> m0 ! q" using d by simp
        then show ?thesis by (rule carried [OF q])
      qed
    qed
    show ?thesis
      unfolding marked_fields_only_def using len' new by blast
  qed
qed

lemma PatchKernel_loop_marked:
  "size_fields_only ms k m0 m \<Longrightarrow> marked_fields_only ms k m0 m \<Longrightarrow> k \<le> len \<Longrightarrow>
   marked_fields_only ms len m0 (PatchKernel_loop ms len k m)"
proof (induction ms len k m rule: PatchKernel_loop.induct)
  case (1 msize len i m)
  show ?case
  proof (cases "i < len")
    case True
    have "marked_fields_only msize len m0
            (PatchKernel_loop msize len (Suc i) (if dts_found m i then dts_write msize m i else m))"
      using True "1.prems"
      by (intro "1.IH" size_fields_only_step marked_fields_only_step) simp_all
    then show ?thesis using True by (subst PatchKernel_loop.simps) simp
  next
    case False
    then have "i = len" using "1.prems" by simp
    then show ?thesis using "1.prems" by (subst PatchKernel_loop.simps) simp
  qed
qed

lemma size_lo_low_bits: "\<not> bit (size_lo ms) 0" "\<not> bit (size_lo ms) 1"
  by (simp_all add: size_lo_closed bit_simps)

lemma size_lo_not_letter:
  "size_lo ms \<noteq> 0x6d" "size_lo ms \<noteq> 0x65" "size_lo ms \<noteq> 0x6f" "size_lo ms \<noteq> 0x72"
  "size_lo ms \<noteq> 0x79"
proof -
  have a: "v \<noteq> size_lo ms" if "bit v 0 \<or> bit v 1" for v :: u8
    using that size_lo_low_bits [of ms] by auto
  show "size_lo ms \<noteq> 0x6d" using a [of "0x6d"] by simp
  show "size_lo ms \<noteq> 0x65" using a [of "0x65"] by simp
  show "size_lo ms \<noteq> 0x6f" using a [of "0x6f"] by simp
  show "size_lo ms \<noteq> 0x72" using a [of "0x72"] by simp
  show "size_lo ms \<noteq> 0x79" using a [of "0x79"] by simp
qed

lemma image_fields_onlyD:
  "image_fields_only ms k m0 m \<Longrightarrow> q < length m0 \<Longrightarrow> m ! q \<noteq> m0 ! q \<Longrightarrow>
   \<exists>p<k. (q = p + 24 \<or> q = p + 25) \<and> has_marker m0 p \<and> has_placeholder m0 p \<and> patched ms m p"
  by (simp add: image_fields_only_def)

lemma image_fields_only_refl: "image_fields_only ms 0 m m"
  by (simp add: image_fields_only_def)

text \<open>
  Unless the high size byte is 00 or 79, no patch completes a marker: the marker that the
  scan meets is the one of the image.
\<close>

lemma marker_original:
  assumes inv: "image_fields_only ms k m0 m" and f: "dts_found m k"
    and h0: "size_hi ms \<noteq> 0x00" and h79: "size_hi ms \<noteq> 0x79"
  shows "has_marker m0 k"
proof -
  from f have b: "k + 27 < length m"
    and mv: "m ! (k + 0) = 0x6d" "m ! (k + 1) = 0x65" "m ! (k + 2) = 0x6d" "m ! (k + 3) = 0x6f"
      "m ! (k + 4) = 0x72" "m ! (k + 5) = 0x79" "m ! (k + 6) = 0x00"
    by (simp_all add: dts_found_iff)
  have len: "length m = length m0" using inv by (simp add: image_fields_only_def)
  note nl = size_lo_not_letter [of ms]
  have same: "m0 ! (k + j) = m ! (k + j)" if j: "j \<le> 6" for j
  proof (rule ccontr)
    assume "m0 ! (k + j) \<noteq> m ! (k + j)"
    then have d: "m ! (k + j) \<noteq> m0 ! (k + j)" by simp
    have "k + j < length m0" using j b len by simp
    from image_fields_onlyD [OF inv this d] obtain p where p: "p < k"
      "k + j = p + 24 \<or> k + j = p + 25" "patched ms m p"
      by blast
    from p(3) have hi: "m ! (p + 24) = size_hi ms" and lo: "m ! (p + 25) = size_lo ms"
      by (simp_all add: patched_iff)
    from j consider "j = 0" | "j = 1" | "j = 2" | "j = 3" | "j = 4" | "j = 5" | "j = 6"
      by linarith
    then show False
    proof cases
      case 1
      from p(2) show False
      proof
        assume "k + j = p + 24"
        then have "p + 25 = k + 1" using \<open>j = 0\<close> by simp
        from lo [unfolded this] mv nl show False by simp
      next
        assume "k + j = p + 25"
        then have "p + 25 = k + 0" using \<open>j = 0\<close> by simp
        from lo [unfolded this] mv nl show False by simp
      qed
    next
      case 2
      from p(2) show False
      proof
        assume "k + j = p + 24"
        then have "p + 25 = k + 2" using \<open>j = 1\<close> by simp
        from lo [unfolded this] mv nl show False by simp
      next
        assume "k + j = p + 25"
        then have "p + 25 = k + 1" using \<open>j = 1\<close> by simp
        from lo [unfolded this] mv nl show False by simp
      qed
    next
      case 3
      from p(2) show False
      proof
        assume "k + j = p + 24"
        then have "p + 25 = k + 3" using \<open>j = 2\<close> by simp
        from lo [unfolded this] mv nl show False by simp
      next
        assume "k + j = p + 25"
        then have "p + 25 = k + 2" using \<open>j = 2\<close> by simp
        from lo [unfolded this] mv nl show False by simp
      qed
    next
      case 4
      from p(2) show False
      proof
        assume "k + j = p + 24"
        then have "p + 25 = k + 4" using \<open>j = 3\<close> by simp
        from lo [unfolded this] mv nl show False by simp
      next
        assume "k + j = p + 25"
        then have "p + 25 = k + 3" using \<open>j = 3\<close> by simp
        from lo [unfolded this] mv nl show False by simp
      qed
    next
      case 5
      from p(2) show False
      proof
        assume "k + j = p + 24"
        then have "p + 25 = k + 5" using \<open>j = 4\<close> by simp
        from lo [unfolded this] mv nl show False by simp
      next
        assume "k + j = p + 25"
        then have "p + 25 = k + 4" using \<open>j = 4\<close> by simp
        from lo [unfolded this] mv nl show False by simp
      qed
    next
      case 6
      from p(2) show False
      proof
        assume "k + j = p + 24"
        then have "p + 24 = k + 5" using \<open>j = 5\<close> by simp
        from hi [unfolded this] mv h79 show False by simp
      next
        assume "k + j = p + 25"
        then have "p + 25 = k + 5" using \<open>j = 5\<close> by simp
        from lo [unfolded this] mv nl show False by simp
      qed
    next
      case 7
      from p(2) show False
      proof
        assume "k + j = p + 24"
        then have "p + 24 = k + 6" using \<open>j = 6\<close> by simp
        from hi [unfolded this] mv h0 show False by simp
      next
        assume "k + j = p + 25"
        then have "p + 24 = k + 5" using \<open>j = 6\<close> by simp
        from hi [unfolded this] mv h79 show False by simp
      qed
    qed
  qed
  from same [of 0] same [of 1] same [of 2] same [of 3] same [of 4] same [of 5] same [of 6]
    mv b len
  show ?thesis by (simp add: has_marker_iff)
qed

lemma image_fields_only_step:
  assumes old: "size_fields_only ms k m0 m" and inv: "image_fields_only ms k m0 m"
    and h0: "size_hi ms \<noteq> 0x00" and h79: "size_hi ms \<noteq> 0x79"
  shows "image_fields_only ms (Suc k) m0 (if dts_found m k then dts_write ms m k else m)"
proof -
  let ?m' = "if dts_found m k then dts_write ms m k else m"
  have len: "length m = length m0" using inv by (simp add: image_fields_only_def)
  have len': "length ?m' = length m0"
    using len by (simp add: dts_write_def u8_set_def Let_def)
  have carried: "\<exists>p<Suc k. (q = p + 24 \<or> q = p + 25) \<and>
           has_marker m0 p \<and> has_placeholder m0 p \<and> patched ms ?m' p"
    if q: "q < length m0" and d: "m ! q \<noteq> m0 ! q" for q
  proof -
    from image_fields_onlyD [OF inv q d] obtain p where p: "p < k"
      "q = p + 24 \<or> q = p + 25" "has_marker m0 p" "has_placeholder m0 p" "patched ms m p"
      by blast
    have "patched ms ?m' p" using p by (intro patched_kept) simp_all
    then show ?thesis using p by (intro exI [of _ p]) simp
  qed
  show ?thesis
  proof (cases "dts_found m k")
    case False
    then show ?thesis
      unfolding image_fields_only_def using len' carried by simp
  next
    case True
    then have b: "k + 27 < length m" by (simp add: dts_found_iff)
    have ph: "has_placeholder m0 k" by (rule placeholder_original [OF old True])
    then have o: "m0 ! (k + 26) = 0" "m0 ! (k + 27) = 0"
      by (simp_all add: has_placeholder_iff)
    have mk: "has_marker m0 k" by (rule marker_original [OF inv True h0 h79])
    have pt: "patched ms ?m' k" using True write_patched [of m k ms] by simp
    have new: "\<exists>p<Suc k. (q = p + 24 \<or> q = p + 25) \<and>
           has_marker m0 p \<and> has_placeholder m0 p \<and> patched ms ?m' p"
      if q: "q < length m0" and d: "?m' ! q \<noteq> m0 ! q" for q
    proof -
      consider "q = k + 24 \<or> q = k + 25" | "q = k + 26" | "q = k + 27"
        | "q \<noteq> k + 24" "q \<noteq> k + 25" "q \<noteq> k + 26" "q \<noteq> k + 27" by blast
      then show ?thesis
      proof cases
        case 1
        then show ?thesis using mk ph pt by (intro exI [of _ k]) simp
      next
        case 2
        then have "?m' ! q = 0" using True b by (simp add: dts_write_found)
        then show ?thesis using d o 2 by simp
      next
        case 3
        then have "?m' ! q = 0" using True b by (simp add: dts_write_found)
        then show ?thesis using d o 3 by simp
      next
        case 4
        then have "?m' ! q = m ! q" using True b by (simp add: dts_write_found)
        then have "m ! q \<noteq> m0 ! q" using d by simp
        then show ?thesis by (rule carried [OF q])
      qed
    qed
    show ?thesis
      unfolding image_fields_only_def using len' new by blast
  qed
qed

lemma PatchKernel_loop_image:
  "size_fields_only ms k m0 m \<Longrightarrow> image_fields_only ms k m0 m \<Longrightarrow> k \<le> len \<Longrightarrow>
   size_hi ms \<noteq> 0x00 \<Longrightarrow> size_hi ms \<noteq> 0x79 \<Longrightarrow>
   image_fields_only ms len m0 (PatchKernel_loop ms len k m)"
proof (induction ms len k m rule: PatchKernel_loop.induct)
  case (1 msize len i m)
  show ?case
  proof (cases "i < len")
    case True
    have "image_fields_only msize len m0
            (PatchKernel_loop msize len (Suc i) (if dts_found m i then dts_write msize m i else m))"
      using True "1.prems"
      by (intro "1.IH" size_fields_only_step image_fields_only_step) simp_all
    then show ?thesis using True by (subst PatchKernel_loop.simps) simp
  next
    case False
    then have "i = len" using "1.prems" by simp
    then show ?thesis using "1.prems" by (subst PatchKernel_loop.simps) simp
  qed
qed

text \<open>
  The frame asks for the marker: a change of a placeholder that no marker precedes is
  not within it.
\<close>

lemma frame_needs_marker:
  "\<not> marked_fields_only ms k (replicate 24 0 @ [0x01]) (replicate 24 0 @ [0x00])"
proof
  assume "marked_fields_only ms k (replicate 24 0 @ [0x01]) (replicate 24 0 @ [0x00])"
  from marked_fields_onlyD [OF this, of 24]
  obtain p where "has_marker (replicate 24 0 @ [0x00]) p"
    by (auto simp add: nth_append)
  then have "p + 6 < 25" "(replicate 24 0 @ [0x00 :: u8]) ! p = 0x6d"
    by (simp_all add: has_marker_iff)
  then show False
    by (simp add: nth_append split: if_splits)
qed

text \<open>
  C3, as amended. \<open>Init\<close> stores the configured size less one MB. If the first \<open>len\<close>
  bytes of memory contain, at a position \<open>i\<close>, the marker "memory\0" with the placeholder
  01 F0 00 00 at offsets 24 to 27, then after \<open>PatchKernel\<close> these four bytes are the low
  eight bits of \<open>((S - 1) * 0x100000) >> 24\<close> and of \<open>((S - 1) * 0x100000) >> 16\<close>,
  then 00 and 00, for a configured size of \<open>S\<close> MB. Memory keeps its length, and every
  byte that differs afterwards is one of the two size bytes of a position below \<open>len\<close>
  where memory has the marker after the patch, had the placeholder before it and has the
  patched field after it. Unless the high size byte is 00 or 79, the marker of that
  position was in memory before the patch as well: all bytes other than the size fields
  of the markers present are unchanged.
\<close>

theorem C3_configuration_patch:
  assumes "i < len" and "dts_found m i"
  shows "uint8mem (PatchKernel len ((Init system c0 t0 ram0 s)\<lparr>uint8mem := m\<rparr>)) ! (i + 24) =
       to_uint8 (js_sar ((cfg_memorysize system - 1) * 0x100000) 24) \<and>
     uint8mem (PatchKernel len ((Init system c0 t0 ram0 s)\<lparr>uint8mem := m\<rparr>)) ! (i + 25) =
       to_uint8 (js_sar ((cfg_memorysize system - 1) * 0x100000) 16) \<and>
     uint8mem (PatchKernel len ((Init system c0 t0 ram0 s)\<lparr>uint8mem := m\<rparr>)) ! (i + 26) = 0x00 \<and>
     uint8mem (PatchKernel len ((Init system c0 t0 ram0 s)\<lparr>uint8mem := m\<rparr>)) ! (i + 27) = 0x00 \<and>
     marked_fields_only (cfg_memorysize system - 1) len m
       (uint8mem (PatchKernel len ((Init system c0 t0 ram0 s)\<lparr>uint8mem := m\<rparr>))) \<and>
     (size_hi (cfg_memorysize system - 1) \<noteq> 0x00 \<and> size_hi (cfg_memorysize system - 1) \<noteq> 0x79 \<longrightarrow>
        image_fields_only (cfg_memorysize system - 1) len m
          (uint8mem (PatchKernel len ((Init system c0 t0 ram0 s)\<lparr>uint8mem := m\<rparr>))))"
proof -
  let ?ms = "cfg_memorysize system - 1"
  have eq: "uint8mem (PatchKernel len ((Init system c0 t0 ram0 s)\<lparr>uint8mem := m\<rparr>)) =
      PatchKernel_loop ?ms len 0 m"
    by (simp add: PatchKernel_def Init_memorysize)
  have p: "patched ?ms (PatchKernel_loop ?ms len 0 m) i"
    using assms by (intro PatchKernel_loop_patches [OF size_fields_only_refl]) simp_all
  have f: "marked_fields_only ?ms len m (PatchKernel_loop ?ms len 0 m)"
    by (intro PatchKernel_loop_marked [OF size_fields_only_refl marked_fields_only_refl]) simp
  have g: "image_fields_only ?ms len m (PatchKernel_loop ?ms len 0 m)"
    if "size_hi ?ms \<noteq> 0x00" "size_hi ?ms \<noteq> 0x79"
    using that
    by (intro PatchKernel_loop_image [OF size_fields_only_refl image_fields_only_refl]) simp_all
  show ?thesis
    unfolding eq using p f g by (simp add: patched_iff size_hi_def size_lo_def)
qed

theorem C3_configuration_patch_witness:
  "(0::nat) < 28 \<and> dts_found dts_image 0 \<and>
   size_hi (32 - 1) \<noteq> 0x00 \<and> size_hi (32 - 1) \<noteq> 0x79 \<and>
   uint8mem (PatchKernel 28 (sys_32MB\<lparr>uint8mem := dts_image\<rparr>)) ! 24 = 0x01 \<and>
   uint8mem (PatchKernel 28 (sys_32MB\<lparr>uint8mem := dts_image\<rparr>)) ! 25 = 0xF0 \<and>
   image_fields_only 31 28 dts_image
     (uint8mem (PatchKernel 28 (sys_32MB\<lparr>uint8mem := dts_image\<rparr>))) \<and>
   uint8mem (PatchKernel 28 (sys_2MB\<lparr>uint8mem := dts_image\<rparr>)) ! 24 = 0x00 \<and>
   uint8mem (PatchKernel 28 (sys_2MB\<lparr>uint8mem := dts_image\<rparr>)) ! 25 = 0x10 \<and>
   marked_fields_only 1 28 dts_image
     (uint8mem (PatchKernel 28 (sys_2MB\<lparr>uint8mem := dts_image\<rparr>)))"
proof -
  have l: "(0::nat) < 28" by simp
  have f: "dts_found dts_image 0"
    by (simp add: dts_found_def u8_get_def dts_image_def)
  have h: "size_hi (32 - 1) \<noteq> 0x00" "size_hi (32 - 1) \<noteq> 0x79"
    by (simp_all add: size_hi_def to_uint8_def js_sar_def)
  note a = C3_configuration_patch [OF l f, of "\<lparr>cfg_memorysize = 32, cfg_ncores = 1\<rparr>"
            "cpu sys0" "timer sys0" "[]" sys0, folded sys_32MB_def]
  note b = C3_configuration_patch [OF l f, of "\<lparr>cfg_memorysize = 2, cfg_ncores = 1\<rparr>"
            "cpu sys0" "timer sys0" "[]" sys0, folded sys_2MB_def]
  show ?thesis
    using a b f h by (simp add: to_uint8_def js_sar_def)
qed

text \<open>
  C3 as stated fails. Configured for 32 MB the patch writes 01 F0 00 00 (31 MB), not the
  bytes 02 00 00 00 of \<open>(32 * 0x100000) >> 24\<close> and \<open>(32 * 0x100000) >> 16\<close>. And
  bytes outside the fields of the markers in the image can change: with 1 MB left after
  \<open>Init\<close> the high size byte is 00, which ends the string "memory" that stands before the
  patched field at position 18, where the image has no marker, and the scan then patches
  the placeholder 24 bytes after that string as well.
\<close>

theorem C3_configured_size_counterexample:
  "dts_found dts_image 0 \<and>
   take 4 (drop 24 (uint8mem (PatchKernel 28 (sys_32MB\<lparr>uint8mem := dts_image\<rparr>)))) =
     [0x01, 0xF0, 0x00, 0x00] \<and>
   spec_size_field 32 = [0x02, 0x00, 0x00, 0x00] \<and>
   dts_found dts_chain_image 0 \<and> \<not> dts_found dts_chain_image 18 \<and>
   dts_chain_image ! 43 = 0xF0 \<and>
   uint8mem (PatchKernel 46 (sys_2MB\<lparr>uint8mem := dts_chain_image\<rparr>)) ! 43 = 0x10"
  unfolding sys_32MB_def sys_2MB_def dts_image_def dts_chain_image_def spec_size_field_def
  by (simp add: patch_eval)

subsection \<open>Copying into memory\<close>

lemma u8_set_length: "length (u8_set m i v) = length m"
  by (simp add: u8_set_def)

lemma copy_raw_length: "length (copy_raw b len i m) = length m"
proof (induction b len i m rule: copy_raw.induct)
  case (1 buffer8 len i m)
  show ?case
  proof (cases "i < len")
    case True
    then show ?thesis
      by (subst copy_raw.simps) (simp add: "1.IH" u8_set_length)
  next
    case False
    then show ?thesis
      by (subst copy_raw.simps) simp
  qed
qed

lemma copy_raw_nth:
  "len \<le> length b \<Longrightarrow> j < length m \<Longrightarrow>
   copy_raw b len i m ! j = (if i \<le> j \<and> j < len then b ! j else m ! j)"
proof (induction b len i m rule: copy_raw.induct)
  case (1 buffer8 len i m)
  show ?case
  proof (cases "i < len")
    case True
    let ?m' = "u8_set m i (case u8_get buffer8 i of Some v \<Rightarrow> v | None \<Rightarrow> 0)"
    have l: "length ?m' = length m" by (rule u8_set_length)
    have "copy_raw buffer8 len i m ! j = copy_raw buffer8 len (Suc i) ?m' ! j"
      using True by (subst copy_raw.simps) simp
    also have "\<dots> = (if Suc i \<le> j \<and> j < len then buffer8 ! j else ?m' ! j)"
      using True "1.prems" l by (intro "1.IH") simp_all
    also have "\<dots> = (if i \<le> j \<and> j < len then buffer8 ! j else m ! j)"
      using True "1.prems" by (cases "j = i") (auto simp add: u8_set_def u8_get_def)
    finally show ?thesis .
  next
    case False
    then show ?thesis by (subst copy_raw.simps) auto
  qed
qed

lemma copy_raw_place: "copy_raw b (length b) 0 m = place_at_0 b m"
proof (rule nth_equalityI)
  show "length (copy_raw b (length b) 0 m) = length (place_at_0 b m)"
    by (simp add: copy_raw_length place_at_0_def)
next
  fix j assume "j < length (copy_raw b (length b) 0 m)"
  then have j: "j < length m" by (simp add: copy_raw_length)
  then show "copy_raw b (length b) 0 m ! j = place_at_0 b m ! j"
    by (simp add: copy_raw_nth place_at_0_def nth_append)
qed

lemma fold_callback_snd: "snd (fold bzip2_callback out (m, n)) = n + length out"
  by (induction out arbitrary: m n) (simp_all add: bzip2_callback_def)

lemma fold_callback_length: "length (fst (fold bzip2_callback out (m, n))) = length m"
  by (induction out arbitrary: m n) (simp_all add: bzip2_callback_def u8_set_length)

lemma fold_callback_nth:
  "j < length m \<Longrightarrow>
   fst (fold bzip2_callback out (m, n)) ! j =
     (if n \<le> j \<and> j < n + length out then out ! (j - n) else m ! j)"
proof (induction out arbitrary: m n)
  case Nil
  then show ?case by auto
next
  case (Cons x out)
  have "fst (fold bzip2_callback (x # out) (m, n)) ! j =
        fst (fold bzip2_callback out (u8_set m n x, Suc n)) ! j"
    by (simp add: bzip2_callback_def)
  also have "\<dots> = (if Suc n \<le> j \<and> j < Suc n + length out then out ! (j - Suc n) else u8_set m n x ! j)"
    using Cons.prems by (intro Cons.IH) (simp add: u8_set_length)
  also have "\<dots> = (if n \<le> j \<and> j < n + length (x # out) then (x # out) ! (j - n) else m ! j)"
  proof (cases "j = n")
    case True
    then show ?thesis using Cons.prems by (simp add: u8_set_def)
  next
    case False
    then have "j - n = Suc (j - Suc n)" if "n \<le> j" using that by simp
    then show ?thesis using False Cons.prems by (auto simp add: u8_set_def)
  qed
  finally show ?case .
qed

lemma fold_callback_place:
  "fold bzip2_callback out (m, 0) = (place_at_0 out m, length out)"
proof -
  have "fst (fold bzip2_callback out (m, 0)) = place_at_0 out m"
  proof (rule nth_equalityI)
    show "length (fst (fold bzip2_callback out (m, 0))) = length (place_at_0 out m)"
      by (simp add: fold_callback_length place_at_0_def)
  next
    fix j assume "j < length (fst (fold bzip2_callback out (m, 0)))"
    then have j: "j < length m" by (simp add: fold_callback_length)
    then show "fst (fold bzip2_callback out (m, 0)) ! j = place_at_0 out m ! j"
      by (simp add: fold_callback_nth place_at_0_def nth_append)
  qed
  moreover have "snd (fold bzip2_callback out (m, 0)) = length out"
    by (simp add: fold_callback_snd)
  ultimately show ?thesis by (simp add: prod_eq_iff)
qed

lemma copy_to_temp_length: "length (copy_to_temp m len i temp) = length temp"
proof (induction m len i temp rule: copy_to_temp.induct)
  case (1 m len i temp)
  show ?case
  proof (cases "i < len")
    case True
    then show ?thesis
      by (subst copy_to_temp.simps) (simp add: "1.IH" u8_set_length)
  next
    case False
    then show ?thesis by (subst copy_to_temp.simps) simp
  qed
qed

lemma copy_to_temp_nth:
  "j < length temp \<Longrightarrow>
   copy_to_temp m len i temp ! j =
     (if i \<le> j \<and> j < len then (if j < length m then m ! j else 0) else temp ! j)"
proof (induction m len i temp rule: copy_to_temp.induct)
  case (1 m len i temp)
  show ?case
  proof (cases "i < len")
    case True
    let ?t' = "u8_set temp i (case u8_get m i of Some v \<Rightarrow> v | None \<Rightarrow> 0)"
    have "copy_to_temp m len i temp ! j = copy_to_temp m len (Suc i) ?t' ! j"
      using True by (subst copy_to_temp.simps) simp
    also have "\<dots> = (if Suc i \<le> j \<and> j < len then (if j < length m then m ! j else 0) else ?t' ! j)"
      using True "1.prems" by (intro "1.IH") (simp_all add: u8_set_length)
    also have "\<dots> = (if i \<le> j \<and> j < len then (if j < length m then m ! j else 0) else temp ! j)"
      using True "1.prems" by (cases "j = i") (auto simp add: u8_set_def u8_get_def)
    finally show ?thesis .
  next
    case False
    then show ?thesis by (subst copy_to_temp.simps) auto
  qed
qed

lemma copy_to_temp_closed:
  "copy_to_temp m len 0 (replicate len 0) = take len m @ replicate (len - length m) 0"
proof (rule nth_equalityI)
  show "length (copy_to_temp m len 0 (replicate len 0)) =
        length (take len m @ replicate (len - length m) 0)"
    by (simp add: copy_to_temp_length)
next
  fix j assume "j < length (copy_to_temp m len 0 (replicate len 0))"
  then have j: "j < len" by (simp add: copy_to_temp_length)
  then show "copy_to_temp m len 0 (replicate len 0) ! j =
             (take len m @ replicate (len - length m) 0) ! j"
    by (simp add: copy_to_temp_nth nth_append)
qed

lemma place_at_0_length: "length (place_at_0 bytes m) = length m"
  by (simp add: place_at_0_def)

lemma place_at_0_fits: "length bytes \<le> length m \<Longrightarrow> take (length bytes) (place_at_0 bytes m) = bytes"
  by (simp add: place_at_0_def)

lemma materialize_raw:
  "\<not> elf_IsELF L b \<Longrightarrow> \<not> bzip2_IsBZIP2 L b \<Longrightarrow>
   materialize L b m = (place_at_0 b m, length b)"
  by (simp add: materialize_def Let_def copy_raw_place)

lemma materialize_elf:
  "elf_IsELF L b \<Longrightarrow> materialize L b m = (elf_Extract L b DestRam m, length b)"
  by (simp add: materialize_def Let_def)

lemma materialize_bzip2:
  "\<not> elf_IsELF L b \<Longrightarrow> bzip2_IsBZIP2 L b \<Longrightarrow>
   materialize L b m =
     (if elf_IsELF L (place_at_0 (bzip2_simple L b) m)
      then elf_Extract L
             (take (length (bzip2_simple L b)) (place_at_0 (bzip2_simple L b) m) @
              replicate (length (bzip2_simple L b) - length m) 0)
             DestUint8mem (place_at_0 (bzip2_simple L b) m)
      else place_at_0 (bzip2_simple L b) m,
      length (bzip2_simple L b))"
  by (simp add: materialize_def Let_def fold_callback_place copy_to_temp_closed place_at_0_length)

lemma OnKernelLoaded_status: "status (OnKernelLoaded K L b s) = SYSTEM_RUN"
  by (simp add: OnKernelLoaded_def Let_def message_Send_def log_event_def split: prod.splits)

lemma sniff_raw_iff: "sniff L b = RawFlatBinary \<longleftrightarrow> \<not> elf_IsELF L b \<and> \<not> bzip2_IsBZIP2 L b"
  by (simp add: sniff_def)

lemma sniff_compressed_iff: "sniff L b = CompressedFormat \<longleftrightarrow> \<not> elf_IsELF L b \<and> bzip2_IsBZIP2 L b"
  by (simp add: sniff_def)

subsection \<open>The three formats\<close>

lemma OnKernelLoaded_uint8mem:
  "uint8mem (OnKernelLoaded K L b s) =
     uint8mem (normalize K L (snd (materialize L b (uint8mem s)))
       (s\<lparr>uint8mem := fst (materialize L b (uint8mem s))\<rparr>))"
  by (simp add: OnKernelLoaded_def Let_def message_Send_def log_event_def SendStringToTerminal_def
      normalize_def PatchKernel_def split: prod.splits)

lemma OnKernelLoaded_trace:
  "trace (OnKernelLoaded K L b s) = trace s @ boot_trace (snd (materialize L b (uint8mem s)))"
  by (simp add: OnKernelLoaded_def Let_def message_Send_def log_event_def SendStringToTerminal_def
      normalize_def PatchKernel_def boot_trace_def split: prod.splits)

lemma OnKernelLoaded_memory:
  "uint8mem (OnKernelLoaded K L b s) =
     after_normalize K L s (snd (materialize L b (uint8mem s))) (fst (materialize L b (uint8mem s)))"
  by (simp add: OnKernelLoaded_uint8mem normalize_def PatchKernel_def Let_def after_normalize_def)

lemma sniff_executable_iff: "sniff L b = ExecutableFormat \<longleftrightarrow> elf_IsELF L b"
  by (simp add: sniff_def)

lemma place_at_0_rest:
  "length bytes \<le> length m \<Longrightarrow> drop (length bytes) (place_at_0 bytes m) = drop (length bytes) m"
  by (simp add: place_at_0_def)

text \<open>
  C7, as amended. The sniff of a boot buffer has the three outcomes executable,
  compressed and raw, and \<open>OnKernelLoaded\<close> ends with the system running in each: there
  is no error outcome. A buffer that matches neither magic number is raw: its bytes are
  stored at the addresses 0, 1, 2, ... of memory, all \<open>length\<close> of them when the buffer
  is not longer than memory (the rest of memory is then as before), and otherwise those
  that memory has room for; \<open>length\<close> is the buffer's length in both cases. A CPU that
  is not little-endian gets this memory patched and swapped.
\<close>

theorem C7_format_fallthrough:
  "(sniff L b = ExecutableFormat \<longleftrightarrow> elf_IsELF L b) \<and>
   (sniff L b = CompressedFormat \<longleftrightarrow> \<not> elf_IsELF L b \<and> bzip2_IsBZIP2 L b) \<and>
   (sniff L b = RawFlatBinary \<longleftrightarrow> \<not> elf_IsELF L b \<and> \<not> bzip2_IsBZIP2 L b) \<and>
   status (OnKernelLoaded K L b s) = SYSTEM_RUN \<and>
   (sniff L b = ExecutableFormat \<longrightarrow>
      uint8mem (OnKernelLoaded K L b s) =
        after_normalize K L s (length b) (elf_Extract L b DestRam (uint8mem s)) \<and>
      trace (OnKernelLoaded K L b s) = trace s @ boot_trace (length b)) \<and>
   (sniff L b = CompressedFormat \<longrightarrow>
      uint8mem (OnKernelLoaded K L b s) =
        after_normalize K L s (length (bzip2_simple L b))
          (if elf_IsELF L (place_at_0 (bzip2_simple L b) (uint8mem s))
           then elf_Extract L
                  (take (length (bzip2_simple L b)) (place_at_0 (bzip2_simple L b) (uint8mem s)) @
                   replicate (length (bzip2_simple L b) - length (uint8mem s)) 0)
                  DestUint8mem (place_at_0 (bzip2_simple L b) (uint8mem s))
           else place_at_0 (bzip2_simple L b) (uint8mem s)) \<and>
      trace (OnKernelLoaded K L b s) = trace s @ boot_trace (length (bzip2_simple L b))) \<and>
   (sniff L b = RawFlatBinary \<longrightarrow>
      uint8mem (OnKernelLoaded K L b s) = after_normalize K L s (length b) (place_at_0 b (uint8mem s)) \<and>
      trace (OnKernelLoaded K L b s) = trace s @ boot_trace (length b) \<and>
      (length b \<le> length (uint8mem s) \<longrightarrow>
         take (length b) (place_at_0 b (uint8mem s)) = b \<and>
         drop (length b) (place_at_0 b (uint8mem s)) = drop (length b) (uint8mem s)))"
proof -
  have e: "materialize L b (uint8mem s) = (elf_Extract L b DestRam (uint8mem s), length b)"
    if "sniff L b = ExecutableFormat"
    using that by (simp add: sniff_executable_iff materialize_elf)
  have c: "materialize L b (uint8mem s) =
      (if elf_IsELF L (place_at_0 (bzip2_simple L b) (uint8mem s))
       then elf_Extract L
              (take (length (bzip2_simple L b)) (place_at_0 (bzip2_simple L b) (uint8mem s)) @
               replicate (length (bzip2_simple L b) - length (uint8mem s)) 0)
              DestUint8mem (place_at_0 (bzip2_simple L b) (uint8mem s))
       else place_at_0 (bzip2_simple L b) (uint8mem s),
       length (bzip2_simple L b))"
    if "sniff L b = CompressedFormat"
    using that by (simp add: sniff_compressed_iff materialize_bzip2)
  have r: "materialize L b (uint8mem s) = (place_at_0 b (uint8mem s), length b)"
    if "sniff L b = RawFlatBinary"
    using that by (simp add: sniff_raw_iff materialize_raw)
  show ?thesis
    using e c r
    by (simp add: OnKernelLoaded_memory OnKernelLoaded_trace OnKernelLoaded_status
        sniff_executable_iff sniff_compressed_iff sniff_raw_iff place_at_0_fits place_at_0_rest)
qed

theorem C7_format_fallthrough_witness:
  "sniff stub_loader [1, 2, 3] = RawFlatBinary \<and>
   cpu_littleendian scripted_cpu_le (cpu (sys0\<lparr>uint8mem := [9, 9, 9, 9, 9]\<rparr>)) \<and>
   uint8mem (OnKernelLoaded scripted_cpu_le stub_loader [1, 2, 3] (sys0\<lparr>uint8mem := [9, 9, 9, 9, 9]\<rparr>))
     = [1, 2, 3, 9, 9] \<and>
   trace (OnKernelLoaded scripted_cpu_le stub_loader [1, 2, 3] (sys0\<lparr>uint8mem := [9, 9, 9, 9, 9]\<rparr>))
     = boot_trace 3 \<and>
   status (OnKernelLoaded scripted_cpu_le stub_loader [1, 2, 3] (sys0\<lparr>uint8mem := [9, 9, 9, 9, 9]\<rparr>))
     = SYSTEM_RUN"
proof -
  have r: "sniff stub_loader [1, 2, 3] = RawFlatBinary"
    by (simp add: sniff_def stub_loader_def)
  have le: "cpu_littleendian scripted_cpu_le (cpu (sys0\<lparr>uint8mem := [9, 9, 9, 9, 9]\<rparr>))"
    by (simp add: scripted_cpu_le_def scripted_cpu_def)
  have t: "trace (sys0\<lparr>uint8mem := [9, 9, 9, 9, 9]\<rparr>) = []"
    by (simp add: sys0_def)
  show ?thesis
    using C7_format_fallthrough [of stub_loader "[1, 2, 3]" scripted_cpu_le
        "sys0\<lparr>uint8mem := [9, 9, 9, 9, 9]\<rparr>"] r le t
    by (simp add: after_normalize_def place_at_0_def boot_trace_def)
qed

text \<open>
  C7 as stated fails: of a raw buffer of three bytes a memory of two bytes receives two,
  while three are reported as loaded.
\<close>

theorem C7_oversized_raw_counterexample:
  "sniff stub_loader [1, 2, 3] = RawFlatBinary \<and>
   uint8mem (OnKernelLoaded scripted_cpu_le stub_loader [1, 2, 3] (sys0\<lparr>uint8mem := [9, 9]\<rparr>))
     = [1, 2] \<and>
   trace (OnKernelLoaded scripted_cpu_le stub_loader [1, 2, 3] (sys0\<lparr>uint8mem := [9, 9]\<rparr>))
     = boot_trace 3"
proof -
  have m: "materialize stub_loader [1, 2, 3] [9, 9] = ([1, 2], 3)"
    by (simp add: materialize_def Let_def stub_loader_def copy_raw.simps u8_set_def u8_get_def)
  have r: "sniff stub_loader [1, 2, 3] = RawFlatBinary"
    by (simp add: sniff_def stub_loader_def)
  have "uint8mem (OnKernelLoaded scripted_cpu_le stub_loader [1, 2, 3] (sys0\<lparr>uint8mem := [9, 9]\<rparr>))
      = [1, 2]"
    by (simp add: OnKernelLoaded_memory m after_normalize_def scripted_cpu_le_def scripted_cpu_def)
  moreover have "trace (OnKernelLoaded scripted_cpu_le stub_loader [1, 2, 3]
      (sys0\<lparr>uint8mem := [9, 9]\<rparr>)) = boot_trace 3"
    by (simp add: OnKernelLoaded_trace m sys0_def boot_trace_def)
  ultimately show ?thesis using r by simp
qed

text \<open>
  C6, as amended. For a buffer with the compressed signature the decompressor's bytes
  are stored at the addresses 0, 1, 2, ... of memory and \<open>length\<close> is the number of bytes
  the decompressor produced. It is the number of bytes written when they fit into memory,
  and the first \<open>length\<close> bytes of memory are then these bytes; bytes that do not fit
  are counted and dropped. If memory then sniffs as an executable, extraction runs on a
  copy of the first \<open>length\<close> bytes of memory (padded with zeros where memory is
  shorter), with the byte view of memory as destination, and not on the compressed buffer.
\<close>

theorem C6_compressed_image:
  assumes "sniff L b = CompressedFormat"
  shows "fold bzip2_callback (bzip2_simple L b) (uint8mem s, 0) =
       (place_at_0 (bzip2_simple L b) (uint8mem s), length (bzip2_simple L b)) \<and>
     trace (OnKernelLoaded K L b s) = trace s @ boot_trace (length (bzip2_simple L b)) \<and>
     uint8mem (OnKernelLoaded K L b s) =
       after_normalize K L s (length (bzip2_simple L b))
         (if elf_IsELF L (place_at_0 (bzip2_simple L b) (uint8mem s))
          then elf_Extract L
                 (take (length (bzip2_simple L b)) (place_at_0 (bzip2_simple L b) (uint8mem s)) @
                  replicate (length (bzip2_simple L b) - length (uint8mem s)) 0)
                 DestUint8mem (place_at_0 (bzip2_simple L b) (uint8mem s))
          else place_at_0 (bzip2_simple L b) (uint8mem s)) \<and>
     (length (bzip2_simple L b) \<le> length (uint8mem s) \<longrightarrow>
        take (length (bzip2_simple L b)) (place_at_0 (bzip2_simple L b) (uint8mem s)) =
          bzip2_simple L b \<and>
        take (length (bzip2_simple L b)) (place_at_0 (bzip2_simple L b) (uint8mem s)) @
          replicate (length (bzip2_simple L b) - length (uint8mem s)) 0 = bzip2_simple L b) \<and>
     (length (uint8mem s) \<le> length (bzip2_simple L b) \<longrightarrow>
        place_at_0 (bzip2_simple L b) (uint8mem s) = take (length (uint8mem s)) (bzip2_simple L b))"
proof -
  from assms have c: "\<not> elf_IsELF L b" "bzip2_IsBZIP2 L b"
    by (simp_all add: sniff_compressed_iff)
  show ?thesis
    by (simp add: OnKernelLoaded_memory OnKernelLoaded_trace materialize_bzip2 [OF c]
        fold_callback_place place_at_0_fits) (simp add: place_at_0_def)
qed

theorem C6_compressed_image_witness:
  "sniff stub_loader [0x42, 0x5A, 0x68, 0x39, 0x7F, 0x45, 0x4C, 0x46, 0xAA, 0xBB] = CompressedFormat \<and>
   uint8mem (OnKernelLoaded scripted_cpu_le stub_loader
      [0x42, 0x5A, 0x68, 0x39, 0x7F, 0x45, 0x4C, 0x46, 0xAA, 0xBB]
      (sys0\<lparr>uint8mem := [0, 0, 0, 0, 0, 0, 0, 0]\<rparr>)) = [0xAA, 0xBB, 0x4C, 0x46, 0xAA, 0xBB, 0, 0] \<and>
   trace (OnKernelLoaded scripted_cpu_le stub_loader
      [0x42, 0x5A, 0x68, 0x39, 0x7F, 0x45, 0x4C, 0x46, 0xAA, 0xBB]
      (sys0\<lparr>uint8mem := [0, 0, 0, 0, 0, 0, 0, 0]\<rparr>)) = boot_trace 6"
proof -
  have r: "sniff stub_loader [0x42, 0x5A, 0x68, 0x39, 0x7F, 0x45, 0x4C, 0x46, 0xAA, 0xBB] = CompressedFormat"
    by (simp add: sniff_def stub_loader_def)
  have le: "cpu_littleendian scripted_cpu_le (cpu (sys0\<lparr>uint8mem := [0, 0, 0, 0, 0, 0, 0, 0]\<rparr>))"
    by (simp add: scripted_cpu_le_def scripted_cpu_def)
  have t: "trace (sys0\<lparr>uint8mem := [0, 0, 0, 0, 0, 0, 0, 0]\<rparr>) = []"
    by (simp add: sys0_def)
  show ?thesis
    using C6_compressed_image [OF r, of "sys0\<lparr>uint8mem := [0, 0, 0, 0, 0, 0, 0, 0]\<rparr>" scripted_cpu_le] r le t
    by (simp add: after_normalize_def stub_loader_def place_at_0_def boot_trace_def)
qed

text \<open>
  C6 as stated fails: the decompressor produces three bytes, the tracked length is 3, and
  a memory of two bytes has received two of them.
\<close>

theorem C6_length_counts_produced_counterexample:
  "sniff stub_loader [0x42, 0x5A, 0x68, 0x39, 1, 2, 3] = CompressedFormat \<and>
   bzip2_simple stub_loader [0x42, 0x5A, 0x68, 0x39, 1, 2, 3] = [1, 2, 3] \<and>
   uint8mem (OnKernelLoaded scripted_cpu_le stub_loader [0x42, 0x5A, 0x68, 0x39, 1, 2, 3]
      (sys0\<lparr>uint8mem := [0, 0]\<rparr>)) = [1, 2] \<and>
   trace (OnKernelLoaded scripted_cpu_le stub_loader [0x42, 0x5A, 0x68, 0x39, 1, 2, 3]
      (sys0\<lparr>uint8mem := [0, 0]\<rparr>)) = boot_trace 3"
proof -
  have m: "materialize stub_loader [0x42, 0x5A, 0x68, 0x39, 1, 2, 3] [0, 0] = ([1, 2], 3)"
    by (simp add: materialize_def Let_def stub_loader_def bzip2_callback_def u8_set_def)
  have r: "sniff stub_loader [0x42, 0x5A, 0x68, 0x39, 1, 2, 3] = CompressedFormat"
    "bzip2_simple stub_loader [0x42, 0x5A, 0x68, 0x39, 1, 2, 3] = [1, 2, 3]"
    by (simp_all add: sniff_def stub_loader_def)
  have "uint8mem (OnKernelLoaded scripted_cpu_le stub_loader [0x42, 0x5A, 0x68, 0x39, 1, 2, 3]
      (sys0\<lparr>uint8mem := [0, 0]\<rparr>)) = [1, 2]"
    by (simp add: OnKernelLoaded_memory m after_normalize_def scripted_cpu_le_def scripted_cpu_def)
  moreover have "trace (OnKernelLoaded scripted_cpu_le stub_loader [0x42, 0x5A, 0x68, 0x39, 1, 2, 3]
      (sys0\<lparr>uint8mem := [0, 0]\<rparr>)) = boot_trace 3"
    by (simp add: OnKernelLoaded_trace m sys0_def boot_trace_def)
  ultimately show ?thesis using r by simp
qed

subsection \<open>Endianness\<close>

text \<open>
  C8. For a little-endian CPU \<open>OnKernelLoaded\<close> leaves memory as the format branch
  produced it. Otherwise, and only then, it runs \<open>PatchKernel\<close> over the first
  \<open>length\<close> bytes and after it the word swap \<open>Little2Big\<close>.
\<close>

theorem C8_endianness_gate:
  "(cpu_littleendian K (cpu s) \<longrightarrow>
      normalize K L len s = s \<and>
      uint8mem (OnKernelLoaded K L b s) = fst (materialize L b (uint8mem s))) \<and>
   (\<not> cpu_littleendian K (cpu s) \<longrightarrow>
      normalize K L len s = s\<lparr>uint8mem := ram_Little2Big L len (uint8mem (PatchKernel len s))\<rparr> \<and>
      uint8mem (OnKernelLoaded K L b s) =
        ram_Little2Big L (snd (materialize L b (uint8mem s)))
          (PatchKernel_loop (memorysize s) (snd (materialize L b (uint8mem s))) 0
             (fst (materialize L b (uint8mem s)))))"
  by (simp add: OnKernelLoaded_uint8mem normalize_def PatchKernel_def Let_def)

lemma patch_2MB: "PatchKernel_loop 1 28 0 dts_image = dts_image[24 := 0x00, 25 := 0x10]"
  unfolding dts_image_def
  by (simp add: PatchKernel_loop.simps dts_found_def u8_get_def dts_write_def u8_set_def Let_def
      to_uint8_def js_sar_def)

theorem C8_endianness_gate_witness:
  "\<not> cpu_littleendian scripted_cpu (cpu sys_2MB) \<and>
   cpu_littleendian scripted_cpu_le (cpu sys_2MB) \<and>
   sniff stub_loader dts_image = RawFlatBinary \<and>
   drop 24 (uint8mem (OnKernelLoaded scripted_cpu stub_loader dts_image
      (sys_2MB\<lparr>uint8mem := replicate 28 0\<rparr>))) = [0x00, 0x00, 0x10, 0x00] \<and>
   uint8mem (OnKernelLoaded scripted_cpu_le stub_loader dts_image
      (sys_2MB\<lparr>uint8mem := replicate 28 0\<rparr>)) = dts_image"
proof -
  have be: "\<not> cpu_littleendian scripted_cpu (cpu (sys_2MB\<lparr>uint8mem := replicate 28 0\<rparr>))"
    and le: "cpu_littleendian scripted_cpu_le (cpu (sys_2MB\<lparr>uint8mem := replicate 28 0\<rparr>))"
    by (simp_all add: scripted_cpu_le_def scripted_cpu_def)
  have raw: "\<not> elf_IsELF stub_loader dts_image" "\<not> bzip2_IsBZIP2 stub_loader dts_image"
    by (simp_all add: stub_loader_def dts_image_def)
  have mat: "materialize stub_loader dts_image (replicate 28 0) = (dts_image, 28)"
    by (simp add: materialize_raw [OF raw] place_at_0_def) (simp add: dts_image_def)
  have ms: "memorysize (sys_2MB\<lparr>uint8mem := replicate 28 0\<rparr>) = 1"
    by (simp add: sys_2MB_def Init_def Let_def)
  note a = C8_endianness_gate [of scripted_cpu "sys_2MB\<lparr>uint8mem := replicate 28 0\<rparr>"
      stub_loader 28 dts_image]
  note b = C8_endianness_gate [of scripted_cpu_le "sys_2MB\<lparr>uint8mem := replicate 28 0\<rparr>"
      stub_loader 28 dts_image]
  have s: "sniff stub_loader dts_image = RawFlatBinary"
    using raw by (simp add: sniff_def)
  have "uint8mem (OnKernelLoaded scripted_cpu stub_loader dts_image
      (sys_2MB\<lparr>uint8mem := replicate 28 0\<rparr>)) =
      swap_words 7 (dts_image[24 := 0x00, 25 := 0x10])"
    using a be by (simp add: mat ms patch_2MB) (simp add: stub_loader_def)
  moreover have "drop 24 (swap_words 7 (dts_image[24 := 0x00, 25 := 0x10])) = [0x00, 0x00, 0x10, 0x00]"
    by (simp add: dts_image_def eval_nat_numeral)
  moreover have "uint8mem (OnKernelLoaded scripted_cpu_le stub_loader dts_image
      (sys_2MB\<lparr>uint8mem := replicate 28 0\<rparr>)) = dts_image"
    using b le by (simp add: mat)
  ultimately show ?thesis
    using be le s by simp
qed

end
